theory Spec2Isabelle
  imports Complex_Main "HOL-Library.AList"
begin

section \<open>Numbers\<close>

text \<open>
  The ball's coordinates and velocity are JavaScript numbers, that is IEEE-754 doubles,
  and the tick multiplies them by the literal \<^verbatim>\<open>1.05\<close>, which is not a double.
  A finite double is modelled by the rational it denotes; every arithmetic operation
  computes the exact rational result and rounds it to 53 significant bits, nearest with
  ties to even (\<open>fl\<close>). The exponent is left unbounded: overflow to Infinity and
  subnormal numbers are outside the model (a ball leaves the 600-unit field and is reset
  long before its speed could get there).

  Paddle coordinates and scores only ever hold small integers (literals, \<^verbatim>\<open>+= 10\<close>,
  \<^verbatim>\<open>-= 10\<close>, \<^verbatim>\<open>++\<close>), on which double arithmetic is exact; they are
  modelled by \<open>int\<close>.
\<close>

type_synonym number = rat

function bitlen :: "int \<Rightarrow> nat" where
  "bitlen n = (if n \<le> 0 then 0 else Suc (bitlen (n div 2)))"
  by pat_completeness auto
termination
  by (relation "measure nat") auto

declare bitlen.simps [simp del]

definition pow2 :: "int \<Rightarrow> rat" where
  "pow2 e = (if 0 \<le> e then 2 ^ nat e else 1 / 2 ^ nat (- e))"

definition ilog2 :: "rat \<Rightarrow> int" where
  \<comment> \<open>for \<open>0 < q\<close>: the \<open>e\<close> with \<open>2^e \<le> q < 2^(e+1)\<close>\<close>
  "ilog2 q =
     (case quotient_of q of (a, b) \<Rightarrow>
        let k = int (bitlen a) - int (bitlen b)
        in if q < pow2 k then k - 1 else k)"

definition round_half_even :: "rat \<Rightarrow> int" where
  "round_half_even q =
     (let f = \<lfloor>q\<rfloor>; d = q - of_int f
      in if d < 1 / 2 then f
         else if 1 / 2 < d then f + 1
         else if even f then f else f + 1)"

definition fl :: "rat \<Rightarrow> number" where
  "fl q =
     (if q = 0 then 0
      else let u = pow2 (ilog2 \<bar>q\<bar> - 52)
           in sgn q * of_int (round_half_even (\<bar>q\<bar> / u)) * u)"

definition dadd :: "number \<Rightarrow> number \<Rightarrow> number" where
  "dadd a b = fl (a + b)"

definition dmul :: "number \<Rightarrow> number \<Rightarrow> number" where
  "dmul a b = fl (a * b)"

definition lit_1_05 :: number where
  \<comment> \<open>the double the literal \<^verbatim>\<open>1.05\<close> denotes\<close>
  "lit_1_05 = fl (105 / 100)"

text \<open>
  A score is read and written with \<^verbatim>\<open>scores[id]++\<close>; on a missing entry
  (\<^verbatim>\<open>undefined\<close>) the increment stores NaN, and NaN stays NaN.
\<close>

datatype score = Num int | NaN

fun incr :: "score option \<Rightarrow> score" where
  "incr (Some (Num n)) = Num (n + 1)"
| "incr (Some NaN) = NaN"
| "incr None = NaN"

fun score_ge :: "score option \<Rightarrow> int \<Rightarrow> bool" where
  "score_ge (Some (Num n)) k = (k \<le> n)"
| "score_ge (Some NaN) k = False"
| "score_ge None k = False"

section \<open>Data model\<close>

text \<open>
  Field names follow the source, with two exceptions forced by HOL: a player's \<^verbatim>\<open>id\<close> is
  \<open>pid\<close> (\<open>id\<close> is the identity function), and fields that several objects share
  (\<^verbatim>\<open>x\<close>, \<^verbatim>\<open>y\<close>, \<^verbatim>\<open>position\<close>, \<^verbatim>\<open>playerId\<close>) carry the name of their record. The
  message type \<^verbatim>\<open>GAME_OVER\<close> is \<open>GAME_OVER_MSG\<close>, since the status has the same name.
\<close>

datatype position = TOP | RIGHT | BOTTOM | LEFT

datatype status = WAITING | PLAYING | GAME_OVER

datatype readyState = CONNECTING | OPEN | CLOSING | CLOSED

record player =
  pid :: string
  name :: string
  isReady :: bool
  position :: position

record ball =
  ball_x :: number
  ball_y :: number
  velocityX :: number
  velocityY :: number

record paddle =
  paddle_playerId :: string
  paddle_position :: position
  paddle_x :: int
  paddle_y :: int
  width :: int
  height :: int

record gameState =
  status :: status
  ball :: ball
  paddles :: "paddle list"
  scores :: "(string \<times> score) list"

text \<open>
  A client is a socket and the player it was opened for. The socket is identified by
  a number; its \<^verbatim>\<open>readyState\<close> is kept with the one client entry that refers to it.
\<close>

record client =
  ws :: nat
  ws_readyState :: readyState
  client_playerId :: string

record lobby =
  code :: string
  host :: string
  clients :: "client list"
  players :: "player list"
  gameState :: gameState
  gameLoopInterval :: "nat option"

datatype message =
    GAME_STATE_UPDATE gameState
  | PLAYER_JOINED string
  | PLAYER_LEFT string
  | GAME_START number
  | GAME_OVER_MSG string

text \<open>
  The server: the \<^verbatim>\<open>lobbies\<close> map, the intervals that are set (handle and the lobby
  code its callback closes over), the next fresh interval handle, the sockets whose
  \<^verbatim>\<open>message\<close> and \<^verbatim>\<open>close\<close> handlers are registered (with the lobby code and
  player id the handlers close over), and the log of every \<^verbatim>\<open>ws.send\<close> (socket and
  message), oldest first.
\<close>

record server =
  lobbies :: "(string \<times> lobby) list"
  intervals :: "(nat \<times> string) list"
  nextInterval :: nat
  listeners :: "(nat \<times> string \<times> string) list"
  sent :: "(nat \<times> message) list"

definition init_server :: server where
  "init_server = \<lparr>lobbies = [], intervals = [], nextInterval = 0, listeners = [], sent = []\<rparr>"

definition get_lobby :: "server \<Rightarrow> string \<Rightarrow> lobby option" where
  "get_lobby s lobbyCode = map_of (lobbies s) lobbyCode"

definition put_lobby :: "string \<Rightarrow> lobby \<Rightarrow> server \<Rightarrow> server" where
  \<comment> \<open>the lobby object is mutated in place: the map holds the new value\<close>
  "put_lobby lobbyCode l s = s\<lparr>lobbies := AList.update lobbyCode l (lobbies s)\<rparr>"

section \<open>Broadcast\<close>

definition broadcastToLobby :: "string \<Rightarrow> message \<Rightarrow> server \<Rightarrow> server" where
  "broadcastToLobby lobbyCode msg s =
     (case get_lobby s lobbyCode of
        None \<Rightarrow> s
      | Some lobby \<Rightarrow>
          s\<lparr>sent := sent s @
                map (\<lambda>c. (ws c, msg)) (filter (\<lambda>c. ws_readyState c = OPEN) (clients lobby))\<rparr>)"

definition updateGameState :: "string \<Rightarrow> server \<Rightarrow> server" where
  "updateGameState lobbyCode s =
     (case get_lobby s lobbyCode of
        None \<Rightarrow> s
      | Some lobby \<Rightarrow> broadcastToLobby lobbyCode (GAME_STATE_UPDATE (gameState lobby)) s)"

section \<open>Admission endpoints\<close>

datatype error = BadRequest string | NotFound string

text \<open>
  \<^verbatim>\<open>do { lobbyCode = generateLobbyCode() } while (lobbies.has(lobbyCode))\<close>: the codes
  the generator returns are given as a list; the loop takes the first one that is free.
  When the list runs out the loop has not ended (\<open>None\<close>).
\<close>

fun pickLobbyCode :: "(string \<times> lobby) list \<Rightarrow> string list \<Rightarrow> string option" where
  "pickLobbyCode ls [] = None"
| "pickLobbyCode ls (c # cs) = (if map_of ls c \<noteq> None then pickLobbyCode ls cs else Some c)"

text \<open>The \<^verbatim>\<open>uuid\<close> argument is what \<^verbatim>\<open>uuidv4()\<close> returns in this call.\<close>

definition createLobby ::
  "string \<Rightarrow> string list \<Rightarrow> string \<Rightarrow> server \<Rightarrow> ((error + string \<times> string) \<times> server) option" where
  "createLobby hostName codes uuid s =
     (if hostName = [] then Some (Inl (BadRequest ''Host name is required''), s)
      else case pickLobbyCode (lobbies s) codes of
             None \<Rightarrow> None
           | Some lobbyCode \<Rightarrow>
               let hostId = ''player-'' @ uuid
               in Some (Inr (lobbyCode, hostId),
                    put_lobby lobbyCode
                      \<lparr>code = lobbyCode, host = hostId, clients = [],
                       players = [\<lparr>pid = hostId, name = hostName, isReady = False, position = TOP\<rparr>],
                       gameState =
                         \<lparr>status = WAITING,
                          ball = \<lparr>ball_x = 300, ball_y = 300, velocityX = 0, velocityY = 0\<rparr>,
                          paddles = [], scores = []\<rparr>,
                       gameLoopInterval = None\<rparr> s))"

definition positions :: "position list" where
  "positions = [TOP, RIGHT, BOTTOM, LEFT]"

definition joinLobby ::
  "string \<Rightarrow> string \<Rightarrow> string \<Rightarrow> server \<Rightarrow> (error + string \<times> string) \<times> server" where
  "joinLobby lobbyCode playerName uuid s =
     (if lobbyCode = [] \<or> playerName = []
      then (Inl (BadRequest ''Lobby code and player name are required''), s)
      else case get_lobby s lobbyCode of
             None \<Rightarrow> (Inl (NotFound ''Lobby not found''), s)
           | Some lobby \<Rightarrow>
               if 4 \<le> length (players lobby) then (Inl (BadRequest ''Lobby is full''), s)
               else
                 let playerId = ''player-'' @ uuid;
                     position = positions ! length (players lobby);
                     gs = gameState lobby;
                     lobby' = lobby
                       \<lparr>players := players lobby @
                          [\<lparr>pid = playerId, name = playerName, isReady = False, position = position\<rparr>],
                        gameState := gs\<lparr>scores := AList.update playerId (Num 0) (scores gs)\<rparr>\<rparr>
                 in (Inr (playerId, lobbyCode),
                     broadcastToLobby lobbyCode (PLAYER_JOINED playerName)
                       (put_lobby lobbyCode lobby' s)))"

definition lobbyStatus :: "string \<Rightarrow> server \<Rightarrow> error + string \<times> string list" where
  "lobbyStatus lobbyCode s =
     (if lobbyCode = [] then Inl (BadRequest ''Lobby code is required'')
      else case get_lobby s lobbyCode of
             None \<Rightarrow> Inl (NotFound ''Lobby not found'')
           | Some lobby \<Rightarrow> Inr (lobbyCode, map name (players lobby)))"

section \<open>Game loop and physics\<close>

text \<open>
  \<open>env\<close> holds what a handler reads from its environment: the two values
  \<^verbatim>\<open>Math.random()\<close> returns (a handler draws at most twice) and \<^verbatim>\<open>Date.now()\<close>.
\<close>

record env =
  random1 :: number
  random2 :: number
  now :: number

definition randomVelocity :: "number \<Rightarrow> number" where
  \<comment> \<open>\<^verbatim>\<open>Math.random() > 0.5 ? 3 : -3\<close>\<close>
  "randomVelocity r = (if 1 / 2 < r then 3 else - 3)"

definition resetBall :: "env \<Rightarrow> ball \<Rightarrow> ball" where
  "resetBall e b =
     b\<lparr>ball_x := 300, ball_y := 300,
       velocityX := randomVelocity (random1 e), velocityY := randomVelocity (random2 e)\<rparr>"

definition checkCollision :: "ball \<Rightarrow> paddle \<Rightarrow> bool" where
  "checkCollision b p \<longleftrightarrow>
     ball_x b < of_int (paddle_x p + width p) \<and>
     of_int (paddle_x p) < dadd (ball_x b) 10 \<and>
     ball_y b < of_int (paddle_y p + height p) \<and>
     of_int (paddle_y p) < dadd (ball_y b) 10"

definition bounce :: "paddle \<Rightarrow> ball \<Rightarrow> ball" where
  \<comment> \<open>the body of the collision branch\<close>
  "bounce p b =
     (let b1 = (if paddle_position p = TOP \<or> paddle_position p = BOTTOM
                then b\<lparr>velocityY := - velocityY b\<rparr>
                else b\<lparr>velocityX := - velocityX b\<rparr>)
      in b1\<lparr>velocityX := dmul (velocityX b1) lit_1_05,
             velocityY := dmul (velocityY b1) lit_1_05\<rparr>)"

fun collide :: "ball \<Rightarrow> paddle list \<Rightarrow> ball" where
  \<comment> \<open>\<^verbatim>\<open>for (const paddle of paddles) { if (checkCollision(ball, paddle)) { ...; break; } }\<close>\<close>
  "collide b [] = b"
| "collide b (p # ps) = (if checkCollision b p then bounce p b else collide b ps)"

definition startGameLoop :: "string \<Rightarrow> server \<Rightarrow> server" where
  "startGameLoop lobbyCode s =
     (case get_lobby s lobbyCode of
        None \<Rightarrow> s
      | Some lobby \<Rightarrow>
          let s1 = (case gameLoopInterval lobby of
                      None \<Rightarrow> s
                    | Some h \<Rightarrow> s\<lparr>intervals := AList.delete h (intervals s)\<rparr>);
              h' = nextInterval s1
          in put_lobby lobbyCode (lobby\<lparr>gameLoopInterval := Some h'\<rparr>)
               (s1\<lparr>intervals := AList.update h' lobbyCode (intervals s1),
                   nextInterval := Suc h'\<rparr>))"

definition makePaddle :: "player \<Rightarrow> paddle" where
  "makePaddle p =
     (if position p = TOP then
        \<lparr>paddle_playerId = pid p, paddle_position = position p,
         paddle_x = 250, paddle_y = 20, width = 100, height = 10\<rparr>
      else if position p = RIGHT then
        \<lparr>paddle_playerId = pid p, paddle_position = position p,
         paddle_x = 570, paddle_y = 250, width = 10, height = 100\<rparr>
      else if position p = BOTTOM then
        \<lparr>paddle_playerId = pid p, paddle_position = position p,
         paddle_x = 250, paddle_y = 570, width = 100, height = 10\<rparr>
      else
        \<lparr>paddle_playerId = pid p, paddle_position = position p,
         paddle_x = 20, paddle_y = 250, width = 10, height = 100\<rparr>)"

fun zeroScores :: "player list \<Rightarrow> (string \<times> score) list \<Rightarrow> (string \<times> score) list" where
  \<comment> \<open>\<^verbatim>\<open>lobby.players.forEach(player => { scores[player.id] = 0; })\<close>\<close>
  "zeroScores [] sc = sc"
| "zeroScores (p # ps) sc = zeroScores ps (AList.update (pid p) (Num 0) sc)"

definition startGame :: "string \<Rightarrow> env \<Rightarrow> server \<Rightarrow> server" where
  "startGame lobbyCode e s =
     (case get_lobby s lobbyCode of
        None \<Rightarrow> s
      | Some lobby \<Rightarrow>
          let gs = gameState lobby;
              gs' = gs\<lparr>paddles := map makePaddle (players lobby),
                      ball := \<lparr>ball_x = 300, ball_y = 300,
                               velocityX = randomVelocity (random1 e),
                               velocityY = randomVelocity (random2 e)\<rparr>,
                      scores := zeroScores (players lobby) (scores gs),
                      status := PLAYING\<rparr>;
              s1 = put_lobby lobbyCode (lobby\<lparr>gameState := gs'\<rparr>) s;
              s2 = broadcastToLobby lobbyCode (GAME_START (now e)) s1
          in startGameLoop lobbyCode s2)"

definition winnerNameOf :: "string option \<Rightarrow> player list \<Rightarrow> string" where
  \<comment> \<open>\<^verbatim>\<open>if (winnerId)\<close> is false for \<^verbatim>\<open>null\<close> and for the empty string\<close>
  "winnerNameOf winnerId ps =
     (case winnerId of
        None \<Rightarrow> ''Unknown''
      | Some w \<Rightarrow>
          if w = [] then ''Unknown''
          else (case find (\<lambda>p. pid p = w) ps of
                  None \<Rightarrow> ''Unknown''
                | Some winner \<Rightarrow> name winner))"

definition endGame :: "string \<Rightarrow> string option \<Rightarrow> server \<Rightarrow> server" where
  "endGame lobbyCode winnerId s =
     (case get_lobby s lobbyCode of
        None \<Rightarrow> s
      | Some lobby \<Rightarrow>
          let s1 = (case gameLoopInterval lobby of
                      None \<Rightarrow> s
                    | Some h \<Rightarrow> s\<lparr>intervals := AList.delete h (intervals s)\<rparr>);
              lobby1 = lobby\<lparr>gameLoopInterval := None,
                             gameState := (gameState lobby)\<lparr>status := GAME_OVER\<rparr>\<rparr>;
              s2 = broadcastToLobby lobbyCode
                     (GAME_OVER_MSG (winnerNameOf winnerId (players lobby1)))
                     (put_lobby lobbyCode lobby1 s1);
              lobby2 = lobby1\<lparr>players := map (\<lambda>p. p\<lparr>isReady := False\<rparr>) (players lobby1)\<rparr>
          in updateGameState lobbyCode (put_lobby lobbyCode lobby2 s2))"

definition award ::
  "position \<Rightarrow> player list \<Rightarrow> (string \<times> score) list \<Rightarrow> string option \<times> (string \<times> score) list" where
  \<comment> \<open>\<^verbatim>\<open>const q = players.find(p => p.position === side); if (q) { scores[q.id]++; scorer = q.id; }\<close>\<close>
  "award side ps sc =
     (case find (\<lambda>p. position p = side) ps of
        None \<Rightarrow> (None, sc)
      | Some q \<Rightarrow> (Some (pid q), AList.update (pid q) (incr (map_of sc (pid q))) sc))"

definition walls ::
  "env \<Rightarrow> player list \<Rightarrow> ball \<Rightarrow> (string \<times> score) list
     \<Rightarrow> string option \<times> (string \<times> score) list \<times> ball" where
  "walls e ps b sc =
     (if ball_y b < 0 then (fst (award BOTTOM ps sc), snd (award BOTTOM ps sc), resetBall e b)
      else if 600 < ball_x b then (fst (award LEFT ps sc), snd (award LEFT ps sc), resetBall e b)
      else if 600 < ball_y b then (fst (award TOP ps sc), snd (award TOP ps sc), resetBall e b)
      else if ball_x b < 0 then (fst (award RIGHT ps sc), snd (award RIGHT ps sc), resetBall e b)
      else (None, sc, b))"

definition moveBall :: "ball \<Rightarrow> ball" where
  \<comment> \<open>\<^verbatim>\<open>ball.x += ball.velocityX; ball.y += ball.velocityY;\<close>\<close>
  "moveBall b = b\<lparr>ball_x := dadd (ball_x b) (velocityX b), ball_y := dadd (ball_y b) (velocityY b)\<rparr>"

definition updateBallPosition :: "string \<Rightarrow> env \<Rightarrow> server \<Rightarrow> server" where
  "updateBallPosition lobbyCode e s =
     (case get_lobby s lobbyCode of
        None \<Rightarrow> s
      | Some lobby \<Rightarrow>
          if status (gameState lobby) \<noteq> PLAYING then s
          else
            let gs = gameState lobby;
                b = collide (moveBall (ball gs)) (paddles gs);
                (scorer, sc, b') = walls e (players lobby) b (scores gs);
                s1 = put_lobby lobbyCode (lobby\<lparr>gameState := gs\<lparr>ball := b', scores := sc\<rparr>\<rparr>) s
            in (case scorer of
                  None \<Rightarrow> s1
                | Some w \<Rightarrow>
                    if w \<noteq> [] \<and> score_ge (map_of sc w) 10 then endGame lobbyCode (Some w) s1
                    else s1))"

definition intervalCallback :: "string \<Rightarrow> env \<Rightarrow> server \<Rightarrow> server" where
  \<comment> \<open>\<^verbatim>\<open>() => { updateBallPosition(lobbyCode); updateGameState(lobbyCode); }\<close>\<close>
  "intervalCallback lobbyCode e s = updateGameState lobbyCode (updateBallPosition lobbyCode e s)"

section \<open>Channel handlers\<close>

fun markReady :: "string \<Rightarrow> player list \<Rightarrow> player list" where
  \<comment> \<open>\<^verbatim>\<open>const player = players.find(p => p.id === playerId); if (player) player.isReady = true;\<close>\<close>
  "markReady playerId [] = []"
| "markReady playerId (p # ps) =
     (if pid p = playerId then p\<lparr>isReady := True\<rparr> # ps else p # markReady playerId ps)"

definition handlePlayerReady :: "string \<Rightarrow> string \<Rightarrow> env \<Rightarrow> server \<Rightarrow> server" where
  "handlePlayerReady lobbyCode playerId e s =
     (case get_lobby s lobbyCode of
        None \<Rightarrow> s
      | Some lobby \<Rightarrow>
          let lobby1 = lobby\<lparr>players := markReady playerId (players lobby)\<rparr>;
              s1 = put_lobby lobbyCode lobby1 s;
              allReady = list_all isReady (players lobby1)
          in if allReady \<and> 2 \<le> length (players lobby1) then startGame lobbyCode e s1
             else updateGameState lobbyCode s1)"

definition movePaddle :: "string \<Rightarrow> paddle \<Rightarrow> paddle" where
  \<comment> \<open>the two branches on the paddle's side, with \<^verbatim>\<open>PADDLE_SPEED = 10\<close>\<close>
  "movePaddle direction p =
     (if paddle_position p = TOP \<or> paddle_position p = BOTTOM then
        (if direction = ''LEFT'' \<and> 0 < paddle_x p then p\<lparr>paddle_x := paddle_x p - 10\<rparr>
         else if direction = ''RIGHT'' \<and> paddle_x p + width p < 600
              then p\<lparr>paddle_x := paddle_x p + 10\<rparr>
         else p)
      else
        (if direction = ''UP'' \<and> 0 < paddle_y p then p\<lparr>paddle_y := paddle_y p - 10\<rparr>
         else if direction = ''DOWN'' \<and> paddle_y p + height p < 600
              then p\<lparr>paddle_y := paddle_y p + 10\<rparr>
         else p))"

fun updateFirst :: "('a \<Rightarrow> bool) \<Rightarrow> ('a \<Rightarrow> 'a) \<Rightarrow> 'a list \<Rightarrow> 'a list" where
  \<comment> \<open>the element \<^verbatim>\<open>find\<close> returns is mutated in place\<close>
  "updateFirst P f [] = []"
| "updateFirst P f (x # xs) = (if P x then f x # xs else x # updateFirst P f xs)"

definition handleMovePaddle :: "string \<Rightarrow> string \<Rightarrow> string \<Rightarrow> server \<Rightarrow> server" where
  "handleMovePaddle lobbyCode playerId direction s =
     (case get_lobby s lobbyCode of
        None \<Rightarrow> s
      | Some lobby \<Rightarrow>
          if status (gameState lobby) \<noteq> PLAYING then s
          else (case find (\<lambda>p. paddle_playerId p = playerId) (paddles (gameState lobby)) of
                  None \<Rightarrow> s
                | Some paddle \<Rightarrow>
                    let gs = gameState lobby;
                        gs' = gs\<lparr>paddles := updateFirst (\<lambda>p. paddle_playerId p = playerId)
                                                (movePaddle direction) (paddles gs)\<rparr>
                    in updateGameState lobbyCode
                         (put_lobby lobbyCode (lobby\<lparr>gameState := gs'\<rparr>) s)))"

fun findIndex :: "('a \<Rightarrow> bool) \<Rightarrow> 'a list \<Rightarrow> nat option" where
  \<comment> \<open>\<open>None\<close> is the \<^verbatim>\<open>-1\<close> of \<^verbatim>\<open>Array.prototype.findIndex\<close>\<close>
  "findIndex P [] = None"
| "findIndex P (x # xs) =
     (if P x then Some 0 else case findIndex P xs of None \<Rightarrow> None | Some i \<Rightarrow> Some (Suc i))"

definition splice1 :: "nat \<Rightarrow> 'a list \<Rightarrow> 'a list" where
  \<comment> \<open>\<^verbatim>\<open>xs.splice(i, 1)\<close>\<close>
  "splice1 i xs = take i xs @ drop (Suc i) xs"

definition handlePlayerLeave :: "string \<Rightarrow> string \<Rightarrow> server \<Rightarrow> server" where
  "handlePlayerLeave lobbyCode playerId s =
     (case get_lobby s lobbyCode of
        None \<Rightarrow> s
      | Some lobby \<Rightarrow>
          (case findIndex (\<lambda>p. pid p = playerId) (players lobby) of
             None \<Rightarrow> s
           | Some playerIndex \<Rightarrow>
               let playerName = name (players lobby ! playerIndex);
                   lobby1 = lobby
                     \<lparr>players := splice1 playerIndex (players lobby),
                      clients := filter (\<lambda>c. client_playerId c \<noteq> playerId) (clients lobby)\<rparr>
               in if host lobby1 = playerId \<and> players lobby1 = []
                  then s\<lparr>lobbies := AList.delete lobbyCode (lobbies s)\<rparr>
                  else
                    let lobby2 = (if host lobby1 = playerId
                                  then lobby1\<lparr>host := pid (hd (players lobby1))\<rparr>
                                  else lobby1);
                        s1 = broadcastToLobby lobbyCode (PLAYER_LEFT playerName)
                               (put_lobby lobbyCode lobby2 s)
                    in if status (gameState lobby2) = PLAYING then endGame lobbyCode None s1
                       else updateGameState lobbyCode s1))"

text \<open>
  The connection handler. The URL parameters are strings; an absent parameter
  (\<^verbatim>\<open>null\<close>) and an empty one are both falsy and are both modelled by the empty string.
  Closing the rejected socket changes nothing on the server.
\<close>

definition connection :: "nat \<Rightarrow> string \<Rightarrow> string \<Rightarrow> server \<Rightarrow> server" where
  "connection wsId lobbyCode playerId s =
     (if lobbyCode = [] \<or> playerId = [] then s
      else case get_lobby s lobbyCode of
             None \<Rightarrow> s
           | Some lobby \<Rightarrow>
               (case findIndex (\<lambda>p. pid p = playerId) (players lobby) of
                  None \<Rightarrow> s
                | Some playerIndex \<Rightarrow>
                    let lobby' = lobby\<lparr>clients := clients lobby @
                          [\<lparr>ws = wsId, ws_readyState = OPEN, client_playerId = playerId\<rparr>]\<rparr>;
                        s1 = put_lobby lobbyCode lobby' s
                    in s1\<lparr>sent := sent s1 @ [(wsId, GAME_STATE_UPDATE (gameState lobby'))],
                          listeners := listeners s1 @ [(wsId, lobbyCode, playerId)]\<rparr>))"

text \<open>
  A parsed inbound message. \<open>OTHER\<close> stands for an unknown \<^verbatim>\<open>type\<close>, for text that is
  not JSON and for a \<^verbatim>\<open>MOVE_PADDLE\<close> without payload: the first is logged, the other
  two throw inside the \<^verbatim>\<open>try\<close> and are logged by the \<^verbatim>\<open>catch\<close>.
\<close>

datatype inbound = PLAYER_READY | MOVE_PADDLE string | LEAVE_LOBBY | OTHER

fun onMessage :: "string \<Rightarrow> string \<Rightarrow> inbound \<Rightarrow> env \<Rightarrow> server \<Rightarrow> server" where
  "onMessage lobbyCode playerId PLAYER_READY e s = handlePlayerReady lobbyCode playerId e s"
| "onMessage lobbyCode playerId (MOVE_PADDLE direction) e s =
     handleMovePaddle lobbyCode playerId direction s"
| "onMessage lobbyCode playerId LEAVE_LOBBY e s = handlePlayerLeave lobbyCode playerId s"
| "onMessage lobbyCode playerId OTHER e s = s"

definition onClose :: "string \<Rightarrow> string \<Rightarrow> server \<Rightarrow> server" where
  "onClose lobbyCode playerId s = handlePlayerLeave lobbyCode playerId s"

text \<open>
  The library changes a socket's \<^verbatim>\<open>readyState\<close>; the server only reads it.
\<close>

definition setReadyState :: "nat \<Rightarrow> readyState \<Rightarrow> server \<Rightarrow> server" where
  "setReadyState wsId st s =
     s\<lparr>lobbies :=
         map (\<lambda>(c, l). (c, l\<lparr>clients :=
               map (\<lambda>cl. if ws cl = wsId then cl\<lparr>ws_readyState := st\<rparr> else cl) (clients l)\<rparr>))
           (lobbies s)\<rparr>"

section \<open>Reachable states\<close>

text \<open>
  The server starts empty and runs one handler at a time to completion (a single event
  loop). The channel handlers of a socket exist only once \<open>connection\<close> accepted it, with
  the lobby code and player id of its URL; the server never removes them, so a message
  can still arrive on the socket of a player who has left. An interval's callback runs
  only while the interval is set.
\<close>

inductive reachable :: "server \<Rightarrow> bool" where
  r_init: "reachable init_server"
| r_create: "reachable s \<Longrightarrow> createLobby hostName codes uuid s = Some (r, s') \<Longrightarrow> reachable s'"
| r_join: "reachable s \<Longrightarrow> reachable (snd (joinLobby lobbyCode playerName uuid s))"
| r_connection: "reachable s \<Longrightarrow> reachable (connection wsId lobbyCode playerId s)"
| r_message: "reachable s \<Longrightarrow> (wsId, lobbyCode, playerId) \<in> set (listeners s) \<Longrightarrow>
     reachable (onMessage lobbyCode playerId m e s)"
| r_close: "reachable s \<Longrightarrow> (wsId, lobbyCode, playerId) \<in> set (listeners s) \<Longrightarrow>
     reachable (onClose lobbyCode playerId s)"
| r_readyState: "reachable s \<Longrightarrow> reachable (setReadyState wsId st s)"
| r_tick: "reachable s \<Longrightarrow> map_of (intervals s) h = Some lobbyCode \<Longrightarrow>
     reachable (intervalCallback lobbyCode e s)"

section \<open>Invariants\<close>

text \<open>
  \<open>clearInterval\<close> is the effect of \<^verbatim>\<open>clearInterval(lobby.gameLoopInterval)\<close> on the
  intervals that are set, read as a map; \<open>startedState\<close> is the game state \<open>startGame\<close>
  writes. \<open>paddle_ok\<close>, \<open>ball_ok\<close>, \<open>lobby_inv\<close> and \<open>server_inv\<close> hold in every
  reachable state: a paddle sits on a multiple of 10 inside the field, the top paddle on
  the line y = 20 and the bottom paddle on the line y = 570, each 10 thick; the ball is at
  rest or no slower than 3 along each axis, and where a velocity component is exactly 3
  the coordinate on that axis is at least 300 (the ball was served from the centre and
  has not bounced since); a PLAYING lobby has at least two
  players, a lobby that is not PLAYING holds no interval handle, once a game has started
  every player has a numeric score, player ids are not empty, and every interval that is
  set is the handle of a PLAYING lobby.
\<close>

definition clearInterval :: "nat option \<Rightarrow> (nat \<rightharpoonup> string) \<Rightarrow> (nat \<rightharpoonup> string)" where
  "clearInterval ho t = (case ho of None \<Rightarrow> t | Some h \<Rightarrow> t(h := None))"

definition startedState :: "env \<Rightarrow> lobby \<Rightarrow> gameState" where
  "startedState e l =
     (gameState l)
       \<lparr>paddles := map makePaddle (players l),
        ball := \<lparr>ball_x = 300, ball_y = 300, velocityX = randomVelocity (random1 e),
                 velocityY = randomVelocity (random2 e)\<rparr>,
        scores := zeroScores (players l) (scores (gameState l)),
        status := PLAYING\<rparr>"

definition paddle_ok :: "paddle \<Rightarrow> bool" where
  "paddle_ok p \<longleftrightarrow>
     (if paddle_position p = TOP \<or> paddle_position p = BOTTOM
      then width p = 100 \<and> 0 \<le> paddle_x p \<and> paddle_x p \<le> 500 \<and> 10 dvd paddle_x p \<and>
           height p = 10 \<and> paddle_y p = (if paddle_position p = TOP then 20 else 570)
      else height p = 100 \<and> 0 \<le> paddle_y p \<and> paddle_y p \<le> 500 \<and> 10 dvd paddle_y p)"

definition ball_ok :: "ball \<Rightarrow> bool" where
  "ball_ok b \<longleftrightarrow>
     (velocityX b = 0 \<or> 3 \<le> \<bar>velocityX b\<bar>) \<and> (velocityY b = 0 \<or> 3 \<le> \<bar>velocityY b\<bar>) \<and>
     (velocityX b = 3 \<longrightarrow> 300 \<le> ball_x b) \<and> (velocityY b = 3 \<longrightarrow> 300 \<le> ball_y b)"

definition scored :: "(string \<times> score) list \<Rightarrow> string list \<Rightarrow> bool" where
  "scored sc ids \<longleftrightarrow> (\<forall>i \<in> set ids. \<exists>n. map_of sc i = Some (Num n))"

definition lobby_inv :: "lobby \<Rightarrow> bool" where
  "lobby_inv l \<longleftrightarrow>
     (status (gameState l) = PLAYING \<longrightarrow> 2 \<le> length (map pid (players l))) \<and>
     (status (gameState l) \<noteq> PLAYING \<longrightarrow> gameLoopInterval l = None) \<and>
     (status (gameState l) \<noteq> WAITING \<longrightarrow> scored (scores (gameState l)) (map pid (players l))) \<and>
     [] \<notin> set (map pid (players l)) \<and>
     (\<forall>p \<in> set (paddles (gameState l)). paddle_ok p) \<and>
     ball_ok (ball (gameState l))"

definition server_inv :: "server \<Rightarrow> bool" where
  "server_inv s \<longleftrightarrow>
     (\<forall>h c. map_of (intervals s) h = Some c \<longrightarrow>
        h < nextInterval s \<and>
        (\<exists>l. get_lobby s c = Some l \<and> status (gameState l) = PLAYING \<and> gameLoopInterval l = Some h)) \<and>
     (\<forall>c l. get_lobby s c = Some l \<longrightarrow> lobby_inv l)"

section \<open>A run of the server\<close>

text \<open>
  Alice creates lobby ABCD, Bob and Carol join, each opens a socket, and all three send
  \<^verbatim>\<open>PLAYER_READY\<close> (\<open>demo9\<close>: the game runs). Carol then leaves (\<open>demo10\<close>: the game
  is over) and Alice and Bob send \<^verbatim>\<open>PLAYER_READY\<close> again (\<open>demo12\<close>).
\<close>


definition demo_env :: env where
  "demo_env = \<lparr>random1 = 3 / 4, random2 = 1 / 4, now = 0\<rparr>"

definition demo1 :: server where
  "demo1 = (case createLobby ''Alice'' [''ABCD''] ''u1'' init_server of
              Some (r, s) \<Rightarrow> s | None \<Rightarrow> init_server)"
definition demo2 :: server where "demo2 = snd (joinLobby ''ABCD'' ''Bob'' ''u2'' demo1)"
definition demo3 :: server where "demo3 = snd (joinLobby ''ABCD'' ''Carol'' ''u3'' demo2)"
definition demo4 :: server where "demo4 = connection 1 ''ABCD'' ''player-u1'' demo3"
definition demo5 :: server where "demo5 = connection 2 ''ABCD'' ''player-u2'' demo4"
definition demo6 :: server where "demo6 = connection 3 ''ABCD'' ''player-u3'' demo5"
definition demo7 :: server where "demo7 = onMessage ''ABCD'' ''player-u1'' PLAYER_READY demo_env demo6"
definition demo8 :: server where "demo8 = onMessage ''ABCD'' ''player-u2'' PLAYER_READY demo_env demo7"
definition demo9 :: server where "demo9 = onMessage ''ABCD'' ''player-u3'' PLAYER_READY demo_env demo8"


definition demo10 :: server where "demo10 = onMessage ''ABCD'' ''player-u3'' LEAVE_LOBBY demo_env demo9"
definition demo11 :: server where "demo11 = onMessage ''ABCD'' ''player-u1'' PLAYER_READY demo_env demo10"
definition demo12 :: server where "demo12 = onMessage ''ABCD'' ''player-u2'' PLAYER_READY demo_env demo11"

text \<open>
  A second run from \<open>demo8\<close> (Alice and Bob are ready, Carol is not): Carol leaves.
\<close>

definition stale1 :: server where
  "stale1 = onMessage ''ABCD'' ''player-u3'' LEAVE_LOBBY demo_env demo8"

section \<open>A sequence of ticks\<close>

fun ticks :: "string \<Rightarrow> env list \<Rightarrow> server \<Rightarrow> server" where
  "ticks c [] s = s"
| "ticks c (e # es) s = ticks c es (intervalCallback c e s)"

section \<open>States of a running game\<close>

text \<open>
  The state \<open>demo9\<close> once the three sockets are closing (nothing is sent any more), with
  Alice's paddle at \<open>px\<close>, Carol's score \<open>n\<close> and the ball \<open>b\<close>; \<open>flying k\<close> is the ball
  \<open>k\<close> ticks after it left the centre with velocity (3, -3). \<open>serve_env\<close> serves the
  ball with velocity (3, 3), \<open>falling k\<close> is that ball \<open>k\<close> ticks later, and \<open>court qx b\<close>
  is the state after Carol's first point with her paddle at \<open>qx\<close> and the ball \<open>b\<close>.
\<close>

definition arena_paddles :: "int \<Rightarrow> paddle list" where
  "arena_paddles px =
     [\<lparr>paddle_playerId = ''player-u1'', paddle_position = TOP,
       paddle_x = px, paddle_y = 20, width = 100, height = 10\<rparr>,
      \<lparr>paddle_playerId = ''player-u2'', paddle_position = RIGHT,
       paddle_x = 570, paddle_y = 250, width = 10, height = 100\<rparr>,
      \<lparr>paddle_playerId = ''player-u3'', paddle_position = BOTTOM,
       paddle_x = 250, paddle_y = 570, width = 100, height = 10\<rparr>]"

definition arena_players :: "player list" where
  "arena_players =
     [\<lparr>pid = ''player-u1'', name = ''Alice'', isReady = True, position = TOP\<rparr>,
      \<lparr>pid = ''player-u2'', name = ''Bob'', isReady = True, position = RIGHT\<rparr>,
      \<lparr>pid = ''player-u3'', name = ''Carol'', isReady = True, position = BOTTOM\<rparr>]"

definition arena_scores :: "int \<Rightarrow> (string \<times> score) list" where
  "arena_scores n = [(''player-u2'', Num 0), (''player-u3'', Num n), (''player-u1'', Num 0)]"

definition arena_lobby :: "int \<Rightarrow> int \<Rightarrow> ball \<Rightarrow> lobby" where
  "arena_lobby px n b =
     \<lparr>code = ''ABCD'', host = ''player-u1'',
      clients =
        [\<lparr>ws = 1, ws_readyState = CLOSING, client_playerId = ''player-u1''\<rparr>,
         \<lparr>ws = 2, ws_readyState = CLOSING, client_playerId = ''player-u2''\<rparr>,
         \<lparr>ws = 3, ws_readyState = CLOSING, client_playerId = ''player-u3''\<rparr>],
      players = arena_players,
      gameState = \<lparr>status = PLAYING, ball = b, paddles = arena_paddles px, scores = arena_scores n\<rparr>,
      gameLoopInterval = Some 0\<rparr>"

definition arena :: "int \<Rightarrow> int \<Rightarrow> ball \<Rightarrow> server" where
  "arena px n b =
     \<lparr>lobbies = [(''ABCD'', arena_lobby px n b)],
      intervals = [(0, ''ABCD'')], nextInterval = 1,
      listeners = [(1, ''ABCD'', ''player-u1''), (2, ''ABCD'', ''player-u2''),
                   (3, ''ABCD'', ''player-u3'')],
      sent = sent demo9\<rparr>"

definition flying :: "nat \<Rightarrow> ball" where
  "flying k = \<lparr>ball_x = 300 + 3 * of_nat k, ball_y = 300 - 3 * of_nat k,
               velocityX = 3, velocityY = - 3\<rparr>"



definition court_paddles :: "int \<Rightarrow> paddle list" where
  "court_paddles qx =
     [\<lparr>paddle_playerId = ''player-u1'', paddle_position = TOP,
       paddle_x = 250, paddle_y = 20, width = 100, height = 10\<rparr>,
      \<lparr>paddle_playerId = ''player-u2'', paddle_position = RIGHT,
       paddle_x = 570, paddle_y = 250, width = 10, height = 100\<rparr>,
      \<lparr>paddle_playerId = ''player-u3'', paddle_position = BOTTOM,
       paddle_x = qx, paddle_y = 570, width = 100, height = 10\<rparr>]"

definition court_lobby :: "int \<Rightarrow> ball \<Rightarrow> lobby" where
  "court_lobby qx b =
     \<lparr>code = ''ABCD'', host = ''player-u1'',
      clients =
        [\<lparr>ws = 1, ws_readyState = CLOSING, client_playerId = ''player-u1''\<rparr>,
         \<lparr>ws = 2, ws_readyState = CLOSING, client_playerId = ''player-u2''\<rparr>,
         \<lparr>ws = 3, ws_readyState = CLOSING, client_playerId = ''player-u3''\<rparr>],
      players = arena_players,
      gameState = \<lparr>status = PLAYING, ball = b, paddles = court_paddles qx, scores = arena_scores 1\<rparr>,
      gameLoopInterval = Some 0\<rparr>"

definition court :: "int \<Rightarrow> ball \<Rightarrow> server" where
  "court qx b =
     \<lparr>lobbies = [(''ABCD'', court_lobby qx b)],
      intervals = [(0, ''ABCD'')], nextInterval = 1,
      listeners = [(1, ''ABCD'', ''player-u1''), (2, ''ABCD'', ''player-u2''),
                   (3, ''ABCD'', ''player-u3'')],
      sent = sent demo9\<rparr>"

section \<open>Rounding is exact on integers\<close>

lemma bitlen_pos: "0 < n \<Longrightarrow> bitlen n = Suc (bitlen (n div 2))"
  by (subst bitlen.simps) simp

lemma bitlen_nonpos [simp]: "n \<le> 0 \<Longrightarrow> bitlen n = 0"
  by (subst bitlen.simps) simp

lemma bitlen_bounds: "0 < n \<Longrightarrow> 2 ^ (bitlen n - 1) \<le> n \<and> n < 2 ^ bitlen n"
proof (induction n rule: bitlen.induct)
  case (1 n)
  show ?case
  proof (cases "n div 2 = 0")
    case True
    with 1(2) have "n = 1" by presburger
    then show ?thesis by (simp add: bitlen_pos)
  next
    case False
    then have pos: "0 < n div 2" using 1(2) by presburger
    with 1 have ih: "2 ^ (bitlen (n div 2) - 1) \<le> n div 2" "n div 2 < 2 ^ bitlen (n div 2)"
      by auto
    have b: "bitlen n = Suc (bitlen (n div 2))" using 1(2) by (rule bitlen_pos)
    have "0 < bitlen (n div 2)" using pos by (simp add: bitlen_pos)
    then have "(2::int) ^ bitlen (n div 2) = 2 * 2 ^ (bitlen (n div 2) - 1)"
      by (cases "bitlen (n div 2)") simp_all
    with ih show ?thesis unfolding b by (simp; presburger)
  qed
qed

lemma ilog2_of_int:
  assumes "0 < n" shows "ilog2 (of_int n) = int (bitlen n) - 1"
proof -
  have "(2::int) ^ (bitlen n - 1) \<le> n" using assms bitlen_bounds[of n] by simp
  then have "(2::rat) ^ (bitlen n - 1) \<le> of_int n"
    by (metis of_int_le_iff of_int_numeral of_int_power)
  moreover have "0 < bitlen n" using assms by (simp add: bitlen_pos)
  ultimately have "\<not> (of_int n :: rat) < pow2 (int (bitlen n) - 1)"
    by (simp add: pow2_def nat_diff_distrib' not_less)
  moreover have "bitlen 1 = 1" by (simp add: bitlen_pos)
  ultimately show ?thesis by (simp add: ilog2_def Let_def)
qed

lemma round_half_even_of_int [simp]: "round_half_even (of_int z) = z"
  by (simp add: round_half_even_def Let_def)

lemma fl_of_int_pos:
  assumes "0 < n" "n < 2 ^ 53" shows "fl (of_int n) = of_int n"
proof -
  define e where "e = bitlen n"
  have "e \<le> 53"
  proof (rule ccontr)
    assume "\<not> e \<le> 53"
    then have "53 \<le> e - 1" by simp
    then have "(2::int) ^ 53 \<le> 2 ^ (e - 1)" by (rule power_increasing) simp
    also have "\<dots> \<le> n" using bitlen_bounds[of n] assms by (simp add: e_def)
    finally show False using assms(2) by simp
  qed
  have "0 < e" using assms by (simp add: e_def bitlen_pos)
  define j where "j = 53 - e"
  have il: "ilog2 \<bar>of_int n\<bar> - 52 = - int j"
    using assms ilog2_of_int[of n] \<open>e \<le> 53\<close> \<open>0 < e\<close> by (simp add: e_def j_def)
  have u: "pow2 (- int j) = 1 / 2 ^ j" by (simp add: pow2_def)
  have "\<bar>of_int n :: rat\<bar> / (1 / 2 ^ j) = of_int (n * 2 ^ j)" using assms by simp
  then have "fl (of_int n) = sgn (of_int n) * of_int (n * 2 ^ j) * (1 / 2 ^ j)"
    using assms unfolding fl_def il u Let_def
    by (simp del: of_int_mult of_int_power)
  also have "\<dots> = of_int n" using assms by simp
  finally show ?thesis .
qed

lemma fl_neg: "fl (- q) = - fl q"
  by (simp add: fl_def Let_def)

lemma fl_of_int: "\<bar>n\<bar> < 2 ^ 53 \<Longrightarrow> fl (of_int n) = of_int n"
proof (cases "n = 0")
  case True then show ?thesis by (simp add: fl_def)
next
  case False
  assume b: "\<bar>n\<bar> < 2 ^ 53"
  show ?thesis
  proof (cases "0 < n")
    case True then show ?thesis using b fl_of_int_pos[of n] by simp
  next
    case f: False
    then have "0 < - n" "- n < 2 ^ 53" using False b by auto
    then have "fl (of_int (- n)) = of_int (- n)" by (rule fl_of_int_pos)
    then show ?thesis by (simp add: fl_neg)
  qed
qed

lemma fl_Ints: "q \<in> \<int> \<Longrightarrow> \<bar>q\<bar> < 2 ^ 53 \<Longrightarrow> fl q = q"
proof -
  assume "q \<in> \<int>" and b: "\<bar>q\<bar> < 2 ^ 53"
  then obtain n where q: "q = of_int n" by (auto elim: Ints_cases)
  have "\<bar>n\<bar> < 2 ^ 53"
  proof -
    have "(of_int \<bar>n\<bar> :: rat) < of_int (2 ^ 53)" using b unfolding q by simp
    then show ?thesis by (simp only: of_int_less_iff)
  qed
  then show ?thesis unfolding q by (rule fl_of_int)
qed

section \<open>Rounding is monotone\<close>

lemma pow2_powi: "pow2 e = 2 powi e"
  by (simp add: pow2_def power_int_def power_one_over)

lemma bitlen_bounds_rat:
  assumes "0 < a"
  shows "2 powi (int (bitlen a) - 1) \<le> (of_int a :: rat)" "(of_int a :: rat) < 2 powi (int (bitlen a))"
proof -
  have pos: "0 < bitlen a" using assms by (simp add: bitlen_pos)
  have "(2::int) ^ (bitlen a - 1) \<le> a" "a < 2 ^ bitlen a" using bitlen_bounds[OF assms] by simp_all
  then have "(of_int ((2::int) ^ (bitlen a - 1)) :: rat) \<le> of_int a"
    "(of_int a :: rat) < of_int (2 ^ bitlen a)"
    by (simp_all only: of_int_le_iff of_int_less_iff)
  then have r: "(2::rat) ^ (bitlen a - 1) \<le> of_int a" "(of_int a :: rat) < 2 ^ bitlen a" by simp_all
  have e: "int (bitlen a) - 1 = int (bitlen a - 1)" using pos by simp
  show "2 powi (int (bitlen a) - 1) \<le> (of_int a :: rat)"
    "(of_int a :: rat) < 2 powi (int (bitlen a))"
    unfolding e power_int_of_nat by (rule r)+
qed

lemma ilog2_bounds:
  assumes "0 < q"
  shows "2 powi (ilog2 q) \<le> q" "q < 2 powi (ilog2 q + 1)"
proof -
  obtain a b where ab: "quotient_of q = (a, b)" by (cases "quotient_of q")
  have b: "0 < b" using ab by (rule quotient_of_denom_pos)
  have q: "q = of_int a / of_int b" using ab by (rule quotient_of_div)
  have a: "0 < a"
  proof (rule ccontr)
    assume "\<not> 0 < a"
    then have "(of_int a :: rat) \<le> 0" by simp
    then have "q \<le> 0" unfolding q using b by (simp add: divide_nonpos_pos)
    then show False using assms by simp
  qed
  define k where "k = int (bitlen a) - int (bitlen b)"
  define B :: rat where "B = of_int b"
  define A :: rat where "A = of_int a"
  have Bpos: "0 < B" and Apos: "0 < A" using a b by (simp_all add: A_def B_def)
  note ba = bitlen_bounds_rat[OF a, folded A_def]
  note bb = bitlen_bounds_rat[OF b, folded B_def]
  have up: "q < 2 powi (k + 1)"
  proof -
    have "A / B < 2 powi (int (bitlen a)) / B" using ba(2) Bpos by (rule divide_strict_right_mono)
    also have "\<dots> \<le> 2 powi (int (bitlen a)) / 2 powi (int (bitlen b) - 1)"
      using bb(1) Bpos by (intro divide_left_mono) (simp_all add: zero_less_mult_iff)
    also have "\<dots> = 2 powi (int (bitlen a) - (int (bitlen b) - 1))"
      by (rule power_int_diff [symmetric]) simp
    also have "int (bitlen a) - (int (bitlen b) - 1) = k + 1" by (simp add: k_def)
    finally show ?thesis by (simp add: q A_def B_def)
  qed
  have lo: "2 powi (k - 1) < q"
  proof -
    have "k - 1 = (int (bitlen a) - 1) - int (bitlen b)" by (simp add: k_def)
    then have "(2::rat) powi (k - 1) = 2 powi ((int (bitlen a) - 1) - int (bitlen b))" by (rule arg_cong)
    also have "\<dots> = 2 powi (int (bitlen a) - 1) / (2 powi (int (bitlen b)) :: rat)"
      by (rule power_int_diff) simp
    also have "\<dots> < 2 powi (int (bitlen a) - 1) / B"
      using bb(2) Bpos by (intro divide_strict_left_mono) (simp_all add: zero_less_mult_iff)
    also have "\<dots> \<le> A / B" using ba(1) Bpos by (intro divide_right_mono) simp_all
    finally show ?thesis by (simp add: q A_def B_def)
  qed
  have e: "ilog2 q = (if q < 2 powi k then k - 1 else k)"
    by (simp add: ilog2_def ab k_def pow2_powi)
  show "2 powi (ilog2 q) \<le> q" using lo by (simp add: e)
  show "q < 2 powi (ilog2 q + 1)" using up by (simp add: e)
qed

lemma ilog2_mono:
  assumes "0 < c" "c \<le> q" shows "ilog2 c \<le> ilog2 q"
proof (rule ccontr)
  assume "\<not> ilog2 c \<le> ilog2 q"
  then have "ilog2 q + 1 \<le> ilog2 c" by simp
  then have "(2::rat) powi (ilog2 q + 1) \<le> 2 powi (ilog2 c)" by (intro power_int_increasing) simp_all
  also have "\<dots> \<le> c" using assms(1) by (rule ilog2_bounds)
  also have "\<dots> \<le> q" by (rule assms(2))
  finally show False using ilog2_bounds(2)[of q] assms by simp
qed

lemma round_half_even_cases:
  "round_half_even x = \<lfloor>x\<rfloor> \<or> round_half_even x = \<lfloor>x\<rfloor> + 1"
  by (simp add: round_half_even_def Let_def)

lemma round_half_even_mono:
  assumes "x \<le> y" shows "round_half_even x \<le> round_half_even y"
proof (cases "\<lfloor>x\<rfloor> = \<lfloor>y\<rfloor>")
  case True
  then have "x - of_int \<lfloor>x\<rfloor> \<le> y - of_int \<lfloor>y\<rfloor>" using assms by simp
  then show ?thesis using True by (auto simp: round_half_even_def Let_def)
next
  case False
  then have "\<lfloor>x\<rfloor> + 1 \<le> \<lfloor>y\<rfloor>" using floor_mono[OF assms] by simp
  moreover have "round_half_even x \<le> \<lfloor>x\<rfloor> + 1" using round_half_even_cases[of x] by auto
  moreover have "\<lfloor>y\<rfloor> \<le> round_half_even y" using round_half_even_cases[of y] by auto
  ultimately show ?thesis by simp
qed

lemma fl_pos:
  assumes "0 < q"
  shows "fl q = of_int (round_half_even (q / 2 powi (ilog2 q - 52))) * 2 powi (ilog2 q - 52)"
  using assms by (simp add: fl_def Let_def pow2_powi)

lemma fl_range:
  assumes "0 < q"
  shows "2 powi (ilog2 q) \<le> fl q" "fl q \<le> 2 powi (ilog2 q + 1)"
proof -
  define u :: rat where "u = 2 powi (ilog2 q - 52)"
  have u: "0 < u" by (simp add: u_def)
  have "(2::rat) powi (52 + (ilog2 q - 52)) = 2 powi 52 * 2 powi (ilog2 q - 52)"
    "(2::rat) powi (53 + (ilog2 q - 52)) = 2 powi 53 * 2 powi (ilog2 q - 52)"
    by (rule power_int_add, simp)+
  moreover have "52 + (ilog2 q - 52) = ilog2 q" "53 + (ilog2 q - 52) = ilog2 q + 1" by simp_all
  moreover have "(2::rat) powi 52 = 2 ^ 52" "(2::rat) powi 53 = 2 ^ 53"
    using power_int_of_nat [of "2::rat" 52] power_int_of_nat [of "2::rat" 53] by simp_all
  ultimately have e: "2 powi (ilog2 q) = 2 ^ 52 * u" "2 powi (ilog2 q + 1) = 2 ^ 53 * u"
    by (simp_all only: u_def)
  have "2 ^ 52 * u \<le> q" "q < 2 ^ 53 * u" using ilog2_bounds[OF assms] by (simp_all add: e)
  then have "(of_int (2 ^ 52) :: rat) \<le> q / u" "q / u \<le> of_int (2 ^ 53)"
    using u by (simp_all add: pos_le_divide_eq pos_divide_le_eq)
  then have "round_half_even (of_int (2 ^ 52)) \<le> round_half_even (q / u)"
    "round_half_even (q / u) \<le> round_half_even (of_int (2 ^ 53))"
    by (simp_all only: round_half_even_mono)
  then have "(2::int) ^ 52 \<le> round_half_even (q / u)" "round_half_even (q / u) \<le> 2 ^ 53"
    by (simp_all only: round_half_even_of_int)
  then have "(of_int (2 ^ 52) :: rat) \<le> of_int (round_half_even (q / u))"
    "(of_int (round_half_even (q / u)) :: rat) \<le> of_int (2 ^ 53)"
    by (simp_all only: of_int_le_iff)
  then have "2 ^ 52 * u \<le> of_int (round_half_even (q / u)) * u"
    "of_int (round_half_even (q / u)) * u \<le> 2 ^ 53 * u"
    using u by simp_all
  then show "2 powi (ilog2 q) \<le> fl q" "fl q \<le> 2 powi (ilog2 q + 1)"
    unfolding e fl_pos[OF assms] u_def by simp_all
qed

lemma fl_mono_pos:
  assumes "0 < c" "c \<le> q" shows "fl c \<le> fl q"
proof -
  have q: "0 < q" using assms by simp
  show ?thesis
  proof (cases "ilog2 c = ilog2 q")
    case True
    have "c / 2 powi (ilog2 q - 52) \<le> q / 2 powi (ilog2 q - 52)"
      using assms(2) by (intro divide_right_mono) simp_all
    then have "round_half_even (c / 2 powi (ilog2 q - 52)) \<le> round_half_even (q / 2 powi (ilog2 q - 52))"
      by (rule round_half_even_mono)
    then have "(of_int (round_half_even (c / 2 powi (ilog2 q - 52))) :: rat)
                 \<le> of_int (round_half_even (q / 2 powi (ilog2 q - 52)))"
      by (simp only: of_int_le_iff)
    then show ?thesis
      unfolding fl_pos[OF assms(1)] fl_pos[OF q] True
      by (intro mult_right_mono) simp_all
  next
    case False
    then have "ilog2 c + 1 \<le> ilog2 q" using ilog2_mono[OF assms] by simp
    then have "(2::rat) powi (ilog2 c + 1) \<le> 2 powi (ilog2 q)"
      by (intro power_int_increasing) simp_all
    then show ?thesis using fl_range(2)[OF assms(1)] fl_range(1)[OF q] by simp
  qed
qed

lemma fl_pos_pos: "0 < q \<Longrightarrow> 0 < fl q"
proof -
  assume q: "0 < q"
  have "(0::rat) < 2 powi (ilog2 q)" by simp
  also have "\<dots> \<le> fl q" using q by (rule fl_range)
  finally show ?thesis .
qed

lemma fl_nonneg: "0 \<le> q \<Longrightarrow> 0 \<le> fl q"
  using fl_pos_pos[of q] by (cases "q = 0") (simp_all add: fl_def)

lemma fl_abs: "\<bar>fl q\<bar> = fl \<bar>q\<bar>"
proof (cases "0 \<le> q")
  case True
  then show ?thesis using fl_nonneg[of q] by simp
next
  case False
  then have "0 \<le> fl (- q)" by (intro fl_nonneg) simp
  then show ?thesis using False by (simp add: fl_neg)
qed

section \<open>The bounce factor\<close>

lemma dmul_3_lit: "dmul 3 lit_1_05 = 1773292353277133 / 562949953421312"
  by code_simp



section \<open>The ball between two serves\<close>

lemma lit_1_05_pos: "0 < lit_1_05"
  unfolding lit_1_05_def by (rule fl_pos_pos) simp

lemma dmul_lit_speed:
  assumes "w = 0 \<or> 3 \<le> \<bar>w\<bar>"
  shows "dmul w lit_1_05 = 0 \<or> 3 < \<bar>dmul w lit_1_05\<bar>"
proof (cases "w = 0")
  case True
  then show ?thesis by (simp add: dmul_def fl_def)
next
  case False
  then have w: "3 \<le> \<bar>w\<bar>" using assms by simp
  have "\<bar>w * lit_1_05\<bar> = \<bar>w\<bar> * lit_1_05" using lit_1_05_pos by (simp add: abs_mult)
  then have a: "\<bar>dmul w lit_1_05\<bar> = fl (\<bar>w\<bar> * lit_1_05)" by (simp add: dmul_def fl_abs)
  have "0 < 3 * lit_1_05" "3 * lit_1_05 \<le> \<bar>w\<bar> * lit_1_05" using w lit_1_05_pos by simp_all
  then have "fl (3 * lit_1_05) \<le> fl (\<bar>w\<bar> * lit_1_05)" by (rule fl_mono_pos)
  moreover have "fl (3 * lit_1_05) = 1773292353277133 / 562949953421312"
    using dmul_3_lit by (simp only: dmul_def)
  ultimately have "3 < fl (\<bar>w\<bar> * lit_1_05)" by simp
  then show ?thesis using a by simp
qed

lemma dadd_3_ge:
  assumes "300 \<le> x" shows "300 \<le> dadd x 3"
proof -
  have "(0::rat) < 300" "300 \<le> x + 3" using assms by simp_all
  then have "fl 300 \<le> fl (x + 3)" by (rule fl_mono_pos)
  moreover have "fl 300 = 300" using fl_of_int[of 300] by simp
  ultimately show ?thesis by (simp add: dadd_def)
qed

lemma ball_ok_moveBall: "ball_ok b \<Longrightarrow> ball_ok (moveBall b)"
  by (auto simp: ball_ok_def moveBall_def dadd_3_ge)

lemma ball_ok_bounce:
  assumes "ball_ok b" shows "ball_ok (bounce p b)"
proof -
  have x: "velocityX b = 0 \<or> 3 \<le> \<bar>velocityX b\<bar>" "- velocityX b = 0 \<or> 3 \<le> \<bar>- velocityX b\<bar>"
    and y: "velocityY b = 0 \<or> 3 \<le> \<bar>velocityY b\<bar>" "- velocityY b = 0 \<or> 3 \<le> \<bar>- velocityY b\<bar>"
    using assms by (simp_all add: ball_ok_def)
  have "dmul w lit_1_05 \<noteq> 3 \<and> (dmul w lit_1_05 = 0 \<or> 3 \<le> \<bar>dmul w lit_1_05\<bar>)"
    if "w = 0 \<or> 3 \<le> \<bar>w\<bar>" for w
    using dmul_lit_speed[OF that] by auto
  from this[OF x(1)] this[OF x(2)] this[OF y(1)] this[OF y(2)]
  show ?thesis by (simp add: ball_ok_def bounce_def Let_def)
qed

lemma ball_ok_collide: "ball_ok b \<Longrightarrow> ball_ok (collide b ps)"
  by (induction ps) (simp_all add: ball_ok_bounce)

lemma ball_ok_resetBall: "ball_ok (resetBall e b)"
  by (simp add: ball_ok_def resetBall_def randomVelocity_def)

lemma ball_ok_walls:
  assumes "ball_ok b" "walls e ps b sc = (scorer, sc', b')" shows "ball_ok b'"
  using assms by (auto simp: walls_def ball_ok_resetBall split: if_splits)

section \<open>Effects of the handlers\<close>

lemma get_lobby_put [simp]: "get_lobby (put_lobby c l s) = (get_lobby s)(c \<mapsto> l)"
  by (rule ext) (simp add: get_lobby_def put_lobby_def update_conv')

lemma put_lobby_fields [simp]:
  "intervals (put_lobby c l s) = intervals s"
  "nextInterval (put_lobby c l s) = nextInterval s"
  "listeners (put_lobby c l s) = listeners s"
  "sent (put_lobby c l s) = sent s"
  by (simp_all add: put_lobby_def)

lemma get_lobby_upd [simp]:
  "get_lobby (s\<lparr>intervals := i\<rparr>) = get_lobby s"
  "get_lobby (s\<lparr>nextInterval := n\<rparr>) = get_lobby s"
  "get_lobby (s\<lparr>listeners := ls\<rparr>) = get_lobby s"
  "get_lobby (s\<lparr>sent := m\<rparr>) = get_lobby s"
  by (rule ext, simp add: get_lobby_def)+

lemma get_lobby_delete [simp]:
  "get_lobby (s\<lparr>lobbies := AList.delete c (lobbies s)\<rparr>) = (get_lobby s)(c := None)"
  by (rule ext) (simp add: get_lobby_def delete_conv')

lemma broadcast_fields [simp]:
  "get_lobby (broadcastToLobby c m s) = get_lobby s"
  "intervals (broadcastToLobby c m s) = intervals s"
  "nextInterval (broadcastToLobby c m s) = nextInterval s"
  "listeners (broadcastToLobby c m s) = listeners s"
  by (simp_all add: broadcastToLobby_def split: option.splits)

lemma updateGameState_fields [simp]:
  "get_lobby (updateGameState c s) = get_lobby s"
  "intervals (updateGameState c s) = intervals s"
  "nextInterval (updateGameState c s) = nextInterval s"
  "listeners (updateGameState c s) = listeners s"
  by (simp_all add: updateGameState_def split: option.splits)

lemma endGame_effect:
  assumes "get_lobby s c = Some l"
  shows "get_lobby (endGame c w s) =
           (get_lobby s)(c \<mapsto> l\<lparr>gameLoopInterval := None,
              gameState := (gameState l)\<lparr>status := GAME_OVER\<rparr>,
              players := map (\<lambda>p. p\<lparr>isReady := False\<rparr>) (players l)\<rparr>)"
    and "map_of (intervals (endGame c w s)) = clearInterval (gameLoopInterval l) (map_of (intervals s))"
    and "nextInterval (endGame c w s) = nextInterval s"
    and "listeners (endGame c w s) = listeners s"
  using assms
  by (simp_all add: endGame_def Let_def clearInterval_def delete_conv' split: option.splits)

lemma endGame_none [simp]: "get_lobby s c = None \<Longrightarrow> endGame c w s = s"
  by (simp add: endGame_def)

lemma startGameLoop_effect:
  assumes "get_lobby s c = Some l"
  shows "get_lobby (startGameLoop c s) = (get_lobby s)(c \<mapsto> l\<lparr>gameLoopInterval := Some (nextInterval s)\<rparr>)"
    and "map_of (intervals (startGameLoop c s)) =
           (clearInterval (gameLoopInterval l) (map_of (intervals s)))(nextInterval s \<mapsto> c)"
    and "nextInterval (startGameLoop c s) = Suc (nextInterval s)"
    and "listeners (startGameLoop c s) = listeners s"
  using assms
  by (simp_all add: startGameLoop_def Let_def clearInterval_def delete_conv' update_conv' split: option.splits)

lemma startGame_effect:
  assumes "get_lobby s c = Some l"
  shows "get_lobby (startGame c e s) =
           (get_lobby s)(c \<mapsto> l\<lparr>gameState := startedState e l, gameLoopInterval := Some (nextInterval s)\<rparr>)"
    and "map_of (intervals (startGame c e s)) =
           (clearInterval (gameLoopInterval l) (map_of (intervals s)))(nextInterval s \<mapsto> c)"
    and "nextInterval (startGame c e s) = Suc (nextInterval s)"
    and "listeners (startGame c e s) = listeners s"
  using assms
  by (simp_all add: startGame_def Let_def startGameLoop_effect startedState_def)

lemma startedState_simps [simp]:
  "status (startedState e l) = PLAYING"
  "paddles (startedState e l) = map makePaddle (players l)"
  "scores (startedState e l) = zeroScores (players l) (scores (gameState l))"
  "ball (startedState e l) = \<lparr>ball_x = 300, ball_y = 300, velocityX = randomVelocity (random1 e),
                 velocityY = randomVelocity (random2 e)\<rparr>"
  by (simp_all add: startedState_def)

lemma map_of_zeroScores:
  "map_of (zeroScores ps sc) k = (if k \<in> pid ` set ps then Some (Num 0) else map_of sc k)"
  by (induction ps arbitrary: sc) (auto simp: update_conv')

lemma paddle_ok_makePaddle: "paddle_ok (makePaddle p)"
  by (cases "position p") (simp_all add: paddle_ok_def makePaddle_def)

lemma paddle_ok_movePaddle:
  assumes "paddle_ok p" shows "paddle_ok (movePaddle d p)"
proof (cases "paddle_position p = TOP \<or> paddle_position p = BOTTOM")
  case True
  with assms have a: "width p = 100" "0 \<le> paddle_x p" "paddle_x p \<le> 500" "10 dvd paddle_x p"
    and b: "height p = 10" "paddle_y p = (if paddle_position p = TOP then 20 else 570)"
    by (simp_all add: paddle_ok_def)
  have "0 < paddle_x p \<Longrightarrow> 10 \<le> paddle_x p" using a by presburger
  moreover have "paddle_x p + 100 < 600 \<Longrightarrow> paddle_x p + 10 \<le> 500" using a by presburger
  moreover have "10 dvd paddle_x p - 10" "10 dvd paddle_x p + 10" using a by presburger+
  ultimately show ?thesis using True a b by (auto simp: paddle_ok_def movePaddle_def)
next
  case False
  with assms have a: "height p = 100" "0 \<le> paddle_y p" "paddle_y p \<le> 500" "10 dvd paddle_y p"
    by (simp_all add: paddle_ok_def)
  have "0 < paddle_y p \<Longrightarrow> 10 \<le> paddle_y p" using a by presburger
  moreover have "paddle_y p + 100 < 600 \<Longrightarrow> paddle_y p + 10 \<le> 500" using a by presburger
  moreover have "10 dvd paddle_y p - 10" "10 dvd paddle_y p + 10" using a by presburger+
  ultimately show ?thesis using False a by (auto simp: paddle_ok_def movePaddle_def)
qed

lemma set_updateFirst: "set (updateFirst P f xs) \<subseteq> set xs \<union> f ` set xs"
  by (induction xs) auto

lemma server_inv_init: "server_inv init_server"
  by (simp add: server_inv_def init_server_def get_lobby_def)

lemma server_inv_sent [simp]: "server_inv (s\<lparr>sent := m\<rparr>) = server_inv s"
  by (simp add: server_inv_def)

lemma server_inv_listeners [simp]: "server_inv (s\<lparr>listeners := m\<rparr>) = server_inv s"
  by (simp add: server_inv_def)

lemma server_inv_cong:
  "get_lobby s' = get_lobby s \<Longrightarrow> intervals s' = intervals s \<Longrightarrow> nextInterval s' = nextInterval s
   \<Longrightarrow> server_inv s' = server_inv s"
  by (simp add: server_inv_def)

lemma server_inv_broadcast [simp]: "server_inv (broadcastToLobby c m s) = server_inv s"
  by (rule server_inv_cong) simp_all

lemma server_inv_updateGameState [simp]: "server_inv (updateGameState c s) = server_inv s"
  by (rule server_inv_cong) simp_all

text \<open>Replacing a lobby by one that keeps status and interval handle.\<close>

lemma server_inv_put_same:
  assumes "server_inv s" "get_lobby s c = Some l" "lobby_inv l'"
    "status (gameState l') = status (gameState l)" "gameLoopInterval l' = gameLoopInterval l"
  shows "server_inv (put_lobby c l' s)"
  using assms unfolding server_inv_def
  by (fastforce split: if_splits)

lemma map_pid_markReady [simp]: "map pid (markReady i ps) = map pid ps"
  by (induction ps) auto

lemma pid_isReady_update [simp]: "pid \<circ> isReady_update f = pid"
  by (rule ext) simp

lemma scored_zeroScores: "scored (zeroScores ps sc) (map pid ps)"
  by (auto simp: scored_def map_of_zeroScores)

lemma server_invI:
  assumes "\<And>h c. map_of (intervals s) h = Some c \<Longrightarrow>
             h < nextInterval s \<and>
             (\<exists>l. get_lobby s c = Some l \<and> status (gameState l) = PLAYING \<and> gameLoopInterval l = Some h)"
    and "\<And>c l. get_lobby s c = Some l \<Longrightarrow> lobby_inv l"
  shows "server_inv s"
  using assms unfolding server_inv_def by blast

lemma server_inv_timerD:
  assumes "server_inv s" "map_of (intervals s) h = Some c"
  obtains l where "h < nextInterval s" "get_lobby s c = Some l" "status (gameState l) = PLAYING"
    "gameLoopInterval l = Some h"
  using assms unfolding server_inv_def by blast

lemma server_inv_lobbyD: "server_inv s \<Longrightarrow> get_lobby s c = Some l \<Longrightarrow> lobby_inv l"
  unfolding server_inv_def by blast

lemma clearInterval_Some: "clearInterval ho t h = Some c \<longleftrightarrow> t h = Some c \<and> ho \<noteq> Some h"
  by (auto simp: clearInterval_def split: option.splits)

lemma server_inv_endGame:
  assumes "server_inv s" "\<And>l. get_lobby s c = Some l \<Longrightarrow> status (gameState l) \<noteq> WAITING"
  shows "server_inv (endGame c w s)"
proof (cases "get_lobby s c")
  case None then show ?thesis using assms by simp
next
  case (Some l)
  let ?l' = "l\<lparr>gameLoopInterval := None,
              gameState := (gameState l)\<lparr>status := GAME_OVER\<rparr>,
              players := map (\<lambda>p. p\<lparr>isReady := False\<rparr>) (players l)\<rparr>"
  have li: "lobby_inv l" using assms Some by (auto simp: server_inv_def)
  have li': "lobby_inv ?l'"
    using li assms(2)[OF Some] by (simp add: lobby_inv_def)
  show ?thesis
  proof (rule server_invI)
    fix h c' assume "map_of (intervals (endGame c w s)) h = Some c'"
    then have t: "map_of (intervals s) h = Some c'" and ne: "gameLoopInterval l \<noteq> Some h"
      by (simp_all add: endGame_effect[OF Some] clearInterval_Some)
    from assms(1) t obtain l0 where l0: "h < nextInterval s" "get_lobby s c' = Some l0"
      "status (gameState l0) = PLAYING" "gameLoopInterval l0 = Some h"
      by (rule server_inv_timerD)
    have "c' \<noteq> c" using l0 Some ne by auto
    then show "h < nextInterval (endGame c w s) \<and>
      (\<exists>l. get_lobby (endGame c w s) c' = Some l \<and> status (gameState l) = PLAYING \<and>
           gameLoopInterval l = Some h)"
      using l0 by (simp add: endGame_effect[OF Some])
  next
    fix c' l' assume "get_lobby (endGame c w s) c' = Some l'"
    then show "lobby_inv l'"
      using li' server_inv_lobbyD[OF assms(1), of c' l']
      by (simp add: endGame_effect[OF Some] split: if_splits)
  qed
qed

lemma server_inv_startGame:
  assumes "server_inv s" "get_lobby s c = Some l" "2 \<le> length (players l)"
  shows "server_inv (startGame c e s)"
proof -
  let ?l' = "l\<lparr>gameState := startedState e l, gameLoopInterval := Some (nextInterval s)\<rparr>"
  note eff = startGame_effect[OF assms(2)]
  have li: "lobby_inv l" using assms by (auto simp: server_inv_def)
  have li': "lobby_inv ?l'"
    using li assms(3)
    by (simp add: lobby_inv_def scored_zeroScores paddle_ok_makePaddle ball_ok_def randomVelocity_def)
  show ?thesis
  proof (rule server_invI)
    fix h c' assume a: "map_of (intervals (startGame c e s)) h = Some c'"
    show "h < nextInterval (startGame c e s) \<and>
      (\<exists>l. get_lobby (startGame c e s) c' = Some l \<and> status (gameState l) = PLAYING \<and>
           gameLoopInterval l = Some h)"
    proof (cases "h = nextInterval s")
      case True
      with a have "c' = c" by (simp add: eff)
      then show ?thesis unfolding True by (simp add: eff)
    next
      case False
      with a have t: "map_of (intervals s) h = Some c'" and ne: "gameLoopInterval l \<noteq> Some h"
        by (simp_all add: eff clearInterval_Some)
      from assms(1) t obtain l0 where l0: "h < nextInterval s" "get_lobby s c' = Some l0"
        "status (gameState l0) = PLAYING" "gameLoopInterval l0 = Some h"
        by (rule server_inv_timerD)
      have "c' \<noteq> c" using l0 assms(2) ne by auto
      then show ?thesis using l0 by (simp add: eff)
    qed
  next
    fix c' l' assume "get_lobby (startGame c e s) c' = Some l'"
    then show "lobby_inv l'"
      using li' server_inv_lobbyD[OF assms(1), of c' l']
      by (simp add: eff split: if_splits)
  qed
qed

lemma startGame_none [simp]: "get_lobby s c = None \<Longrightarrow> startGame c e s = s"
  by (simp add: startGame_def)

lemma server_inv_handlePlayerReady:
  assumes "server_inv s" shows "server_inv (handlePlayerReady c i e s)"
proof (cases "get_lobby s c")
  case None then show ?thesis using assms by (simp add: handlePlayerReady_def)
next
  case (Some l)
  let ?l1 = "l\<lparr>players := markReady i (players l)\<rparr>"
  have li: "lobby_inv l" using assms Some by (auto simp: server_inv_def)
  have "lobby_inv ?l1" using li by (simp add: lobby_inv_def)
  then have s1: "server_inv (put_lobby c ?l1 s)"
    using assms Some by (intro server_inv_put_same[where l = l]) simp_all
  have g: "get_lobby (put_lobby c ?l1 s) c = Some ?l1" by simp
  show ?thesis
    using s1 server_inv_startGame[OF s1 g]
    by (simp add: handlePlayerReady_def Some Let_def)
qed

lemma server_inv_update_same:
  assumes "server_inv s" "get_lobby s c = Some l"
    "get_lobby s' = (get_lobby s)(c \<mapsto> m)" "intervals s' = intervals s"
    "nextInterval s' = nextInterval s" "lobby_inv m"
    "status (gameState m) = status (gameState l)" "gameLoopInterval m = gameLoopInterval l"
  shows "server_inv s'"
proof (rule server_invI)
  fix h c' assume "map_of (intervals s') h = Some c'"
  then have t: "map_of (intervals s) h = Some c'" using assms(4) by simp
  from assms(1) t obtain l0 where l0: "h < nextInterval s" "get_lobby s c' = Some l0"
    "status (gameState l0) = PLAYING" "gameLoopInterval l0 = Some h"
    by (rule server_inv_timerD)
  show "h < nextInterval s' \<and>
    (\<exists>l. get_lobby s' c' = Some l \<and> status (gameState l) = PLAYING \<and> gameLoopInterval l = Some h)"
    using l0 assms(2,3,5,7,8) by (cases "c' = c") simp_all
next
  fix c' l0 assume "get_lobby s' c' = Some l0"
  then show "lobby_inv l0"
    using assms(3,6) server_inv_lobbyD[OF assms(1), of c' l0] by (simp split: if_splits)
qed

lemma server_inv_update_cleared:
  assumes "server_inv s" "get_lobby s c = Some l"
    "get_lobby s' = (get_lobby s)(c \<mapsto> m)"
    "map_of (intervals s') = clearInterval (gameLoopInterval l) (map_of (intervals s))"
    "nextInterval s' = nextInterval s" "lobby_inv m"
  shows "server_inv s'"
proof (rule server_invI)
  fix h c' assume "map_of (intervals s') h = Some c'"
  then have t: "map_of (intervals s) h = Some c'" and ne: "gameLoopInterval l \<noteq> Some h"
    using assms(4) by (simp_all add: clearInterval_Some)
  from assms(1) t obtain l0 where l0: "h < nextInterval s" "get_lobby s c' = Some l0"
    "status (gameState l0) = PLAYING" "gameLoopInterval l0 = Some h"
    by (rule server_inv_timerD)
  have "c' \<noteq> c" using l0 assms(2) ne by auto
  then show "h < nextInterval s' \<and>
    (\<exists>l. get_lobby s' c' = Some l \<and> status (gameState l) = PLAYING \<and> gameLoopInterval l = Some h)"
    using l0 assms(3,5) by simp
next
  fix c' l0 assume "get_lobby s' c' = Some l0"
  then show "lobby_inv l0"
    using assms(3,6) server_inv_lobbyD[OF assms(1), of c' l0] by (simp split: if_splits)
qed

lemma server_inv_new:
  assumes "server_inv s" "get_lobby s c = None" "lobby_inv l'"
  shows "server_inv (put_lobby c l' s)"
proof (rule server_invI)
  fix h c' assume "map_of (intervals (put_lobby c l' s)) h = Some c'"
  then have t: "map_of (intervals s) h = Some c'" by simp
  from assms(1) t obtain l0 where l0: "h < nextInterval s" "get_lobby s c' = Some l0"
    "status (gameState l0) = PLAYING" "gameLoopInterval l0 = Some h"
    by (rule server_inv_timerD)
  have "c' \<noteq> c" using l0 assms(2) by auto
  then show "h < nextInterval (put_lobby c l' s) \<and>
    (\<exists>l. get_lobby (put_lobby c l' s) c' = Some l \<and> status (gameState l) = PLAYING \<and>
         gameLoopInterval l = Some h)"
    using l0 by simp
next
  fix c' l0 assume "get_lobby (put_lobby c l' s) c' = Some l0"
  then show "lobby_inv l0"
    using assms(3) server_inv_lobbyD[OF assms(1), of c' l0] by (simp split: if_splits)
qed

lemma server_inv_delete:
  assumes "server_inv s" "get_lobby s c = Some l" "status (gameState l) \<noteq> PLAYING"
  shows "server_inv (s\<lparr>lobbies := AList.delete c (lobbies s)\<rparr>)"
proof (rule server_invI)
  let ?s' = "s\<lparr>lobbies := AList.delete c (lobbies s)\<rparr>"
  fix h c' assume "map_of (intervals ?s') h = Some c'"
  then have t: "map_of (intervals s) h = Some c'" by simp
  from assms(1) t obtain l0 where l0: "h < nextInterval s" "get_lobby s c' = Some l0"
    "status (gameState l0) = PLAYING" "gameLoopInterval l0 = Some h"
    by (rule server_inv_timerD)
  have "c' \<noteq> c" using l0 assms(2,3) by auto
  then show "h < nextInterval ?s' \<and>
    (\<exists>l. get_lobby ?s' c' = Some l \<and> status (gameState l) = PLAYING \<and> gameLoopInterval l = Some h)"
    using l0 by simp
next
  fix c' l0 assume "get_lobby (s\<lparr>lobbies := AList.delete c (lobbies s)\<rparr>) c' = Some l0"
  then show "lobby_inv l0"
    using server_inv_lobbyD[OF assms(1), of c' l0] by (simp split: if_splits)
qed

lemma pickLobbyCode_free: "pickLobbyCode ls cs = Some c \<Longrightarrow> map_of ls c = None"
  by (induction cs) (auto split: if_splits)

lemma server_inv_createLobby:
  assumes "server_inv s" "createLobby hostName codes uuid s = Some (r, s')"
  shows "server_inv s'"
proof (cases "hostName = []")
  case True then show ?thesis using assms by (simp add: createLobby_def)
next
  case False
  then obtain c where c: "pickLobbyCode (lobbies s) codes = Some c"
    using assms(2) by (auto simp: createLobby_def split: option.splits)
  then have free: "get_lobby s c = None" by (simp add: get_lobby_def pickLobbyCode_free)
  show ?thesis
    using assms(2) False c
    by (auto simp: createLobby_def Let_def lobby_inv_def ball_ok_def
          intro!: server_inv_new[OF assms(1) free])
qed

lemma scored_update:
  "scored sc ids \<Longrightarrow> scored (AList.update k (Num n) sc) (ids @ [k])"
  by (auto simp: scored_def update_conv')

lemma server_inv_joinLobby:
  assumes "server_inv s" shows "server_inv (snd (joinLobby c n u s))"
proof (cases "get_lobby s c")
  case None then show ?thesis using assms by (simp add: joinLobby_def)
next
  case (Some l)
  have li: "lobby_inv l" using assms Some by (rule server_inv_lobbyD)
  let ?l' = "l\<lparr>players := players l @
       [\<lparr>pid = ''player-'' @ u, name = n, isReady = False, position = positions ! length (players l)\<rparr>],
     gameState := (gameState l)\<lparr>scores := AList.update (''player-'' @ u) (Num 0) (scores (gameState l))\<rparr>\<rparr>"
  have li': "lobby_inv ?l'" using li by (auto simp: lobby_inv_def scored_update)
  have "server_inv (put_lobby c ?l' s)"
    by (rule server_inv_update_same[OF assms Some _ _ _ li']) simp_all
  then show ?thesis using assms Some by (simp add: joinLobby_def Let_def)
qed

lemma findIndex_Some: "findIndex P xs = Some i \<Longrightarrow> i < length xs \<and> P (xs ! i)"
  by (induction xs arbitrary: i) (auto split: if_splits option.splits)

lemma findIndex_None: "findIndex P xs = None \<longleftrightarrow> (\<forall>x \<in> set xs. \<not> P x)"
  by (induction xs) (auto split: option.splits)

lemma set_splice1: "set (splice1 i xs) \<subseteq> set xs"
  by (auto simp: splice1_def dest: in_set_takeD in_set_dropD)

lemma length_splice1: "i < length xs \<Longrightarrow> length (splice1 i xs) = length xs - 1"
  by (auto simp: splice1_def)

lemma server_inv_connection:
  assumes "server_inv s" shows "server_inv (connection w c i s)"
proof (cases "get_lobby s c")
  case None then show ?thesis using assms by (simp add: connection_def)
next
  case (Some l)
  have li: "lobby_inv l" using assms Some by (rule server_inv_lobbyD)
  have li': "lobby_inv (l\<lparr>clients := cs\<rparr>)" for cs
    using li by (simp add: lobby_inv_def)
  have "server_inv (put_lobby c (l\<lparr>clients := cs\<rparr>) s)" for cs
    by (rule server_inv_update_same[OF assms Some _ _ _ li']) simp_all
  then show ?thesis using assms Some
    by (simp add: connection_def Let_def split: option.splits)
qed

lemma get_lobby_setReadyState:
  "get_lobby (setReadyState w st s) c =
     map_option (\<lambda>l. l\<lparr>clients := map (\<lambda>cl. if ws cl = w then cl\<lparr>ws_readyState := st\<rparr> else cl) (clients l)\<rparr>)
       (get_lobby s c)"
  by (simp add: get_lobby_def setReadyState_def map_of_map)

lemma server_inv_setReadyState:
  assumes "server_inv s" shows "server_inv (setReadyState w st s)"
proof (rule server_invI)
  fix h c assume "map_of (intervals (setReadyState w st s)) h = Some c"
  then have t: "map_of (intervals s) h = Some c" by (simp add: setReadyState_def)
  from assms t obtain l0 where l0: "h < nextInterval s" "get_lobby s c = Some l0"
    "status (gameState l0) = PLAYING" "gameLoopInterval l0 = Some h"
    by (rule server_inv_timerD)
  have "nextInterval (setReadyState w st s) = nextInterval s" by (simp add: setReadyState_def)
  then show "h < nextInterval (setReadyState w st s) \<and>
    (\<exists>l. get_lobby (setReadyState w st s) c = Some l \<and> status (gameState l) = PLAYING \<and>
         gameLoopInterval l = Some h)"
    using l0 by (simp add: get_lobby_setReadyState)
next
  fix c l assume "get_lobby (setReadyState w st s) c = Some l"
  then obtain l0 where "get_lobby s c = Some l0"
    and l: "l = l0\<lparr>clients := map (\<lambda>cl. if ws cl = w then cl\<lparr>ws_readyState := st\<rparr> else cl) (clients l0)\<rparr>"
    by (auto simp: get_lobby_setReadyState)
  then have "lobby_inv l0" using assms by (auto dest: server_inv_lobbyD)
  then show "lobby_inv l" unfolding l by (simp add: lobby_inv_def)
qed

lemma server_inv_handleMovePaddle:
  assumes "server_inv s" shows "server_inv (handleMovePaddle c i d s)"
proof (cases "get_lobby s c")
  case None then show ?thesis using assms by (simp add: handleMovePaddle_def)
next
  case (Some l)
  have li: "lobby_inv l" using assms Some by (rule server_inv_lobbyD)
  let ?l' = "l\<lparr>gameState := (gameState l)\<lparr>paddles :=
     updateFirst (\<lambda>p. paddle_playerId p = i) (movePaddle d) (paddles (gameState l))\<rparr>\<rparr>"
  have "p \<in> set (updateFirst (\<lambda>p. paddle_playerId p = i) (movePaddle d) (paddles (gameState l)))
     \<Longrightarrow> paddle_ok p" for p
    using set_updateFirst[of "\<lambda>p. paddle_playerId p = i" "movePaddle d" "paddles (gameState l)"] li
    by (auto simp: lobby_inv_def paddle_ok_movePaddle)
  then have li': "lobby_inv ?l'" using li by (simp add: lobby_inv_def)
  have "server_inv (put_lobby c ?l' s)"
    by (rule server_inv_update_same[OF assms Some _ _ _ li']) simp_all
  then show ?thesis using assms Some
    by (simp add: handleMovePaddle_def Let_def split: option.splits)
qed

lemma lobby_inv_host [simp]: "lobby_inv (l\<lparr>host := x\<rparr>) = lobby_inv l"
  by (simp add: lobby_inv_def)

lemma lobby_inv_clients [simp]: "lobby_inv (l\<lparr>clients := x\<rparr>) = lobby_inv l"
  by (simp add: lobby_inv_def)

lemma scored_mono: "scored sc ids \<Longrightarrow> set ids' \<subseteq> set ids \<Longrightarrow> scored sc ids'"
  by (auto simp: scored_def)

lemma set_map_splice1: "set (map f (splice1 i xs)) \<subseteq> set (map f xs)"
  using set_splice1[of i xs] by auto

lemma scored_award: "scored sc ids \<Longrightarrow> scored (snd (award side ps sc)) ids"
  by (auto simp: scored_def award_def update_conv' split: option.splits)

lemma scored_walls: "scored sc ids \<Longrightarrow> scored (fst (snd (walls e ps b sc))) ids"
  by (simp add: walls_def scored_award)

lemma server_inv_handlePlayerLeave:
  assumes "server_inv s" shows "server_inv (handlePlayerLeave c i s)"
proof (cases "get_lobby s c")
  case None then show ?thesis using assms by (simp add: handlePlayerLeave_def)
next
  case (Some l)
  have li: "lobby_inv l" using assms Some by (rule server_inv_lobbyD)
  show ?thesis
  proof (cases "findIndex (\<lambda>p. pid p = i) (players l)")
    case None then show ?thesis using assms Some by (simp add: handlePlayerLeave_def)
  next
    case (Some k)
    then have k: "k < length (players l)" by (simp add: findIndex_Some)
    let ?ps = "splice1 k (players l)"
    let ?l1 = "l\<lparr>players := ?ps, clients := filter (\<lambda>cl. client_playerId cl \<noteq> i) (clients l)\<rparr>"
    define l2 where "l2 = (if host ?l1 = i then ?l1\<lparr>host := pid (hd (players ?l1))\<rparr> else ?l1)"
    define s1 where "s1 = broadcastToLobby c (PLAYER_LEFT (name (players l ! k))) (put_lobby c l2 s)"
    have sub: "set (map pid ?ps) \<subseteq> set (map pid (players l))" by (rule set_map_splice1)
    have len: "length ?ps = length (players l) - 1" using k by (rule length_splice1)
    have sc_sub: "scored sc (map pid ?ps)" if "scored sc (map pid (players l))" for sc
      using that sub by (rule scored_mono)
    have ne_sub: "[] \<notin> set (map pid ?ps)" if "[] \<notin> set (map pid (players l))"
      using that sub by blast
    have st2: "status (gameState l2) = status (gameState l)"
      and gl2: "gameLoopInterval l2 = gameLoopInterval l"
      and ps2: "players l2 = ?ps" and gs2: "gameState l2 = gameState l"
      by (simp_all add: l2_def)
    have g1: "get_lobby s1 c = Some l2" and g1': "get_lobby s1 = (get_lobby s)(c \<mapsto> l2)"
      and i1: "intervals s1 = intervals s" and n1: "nextInterval s1 = nextInterval s"
      by (simp_all add: s1_def)
    show ?thesis
    proof (cases "host l = i \<and> ?ps = []")
      case True
      then have "length (players l) \<le> 1" using len by simp
      then have "status (gameState l) \<noteq> PLAYING" using li by (auto simp: lobby_inv_def)
      then have "server_inv (s\<lparr>lobbies := AList.delete c (lobbies s)\<rparr>)"
        by (rule server_inv_delete[OF assms \<open>get_lobby s c = Some l\<close>])
      then show ?thesis using True Some \<open>get_lobby s c = Some l\<close>
        by (simp add: handlePlayerLeave_def Let_def)
    next
      case False
      have step: "handlePlayerLeave c i s =
         (if status (gameState l) = PLAYING then endGame c None s1 else updateGameState c s1)"
        using False Some \<open>get_lobby s c = Some l\<close>
        by (simp add: handlePlayerLeave_def Let_def l2_def s1_def)
      show ?thesis
      proof (cases "status (gameState l) = PLAYING")
        case True
        let ?m = "l2\<lparr>gameLoopInterval := None,
              gameState := (gameState l2)\<lparr>status := GAME_OVER\<rparr>,
              players := map (\<lambda>p. p\<lparr>isReady := False\<rparr>) (players l2)\<rparr>"
        have lm: "lobby_inv ?m"
          using li True sc_sub ne_sub unfolding lobby_inv_def by (simp add: ps2 gs2)
        have "server_inv (endGame c None s1)"
        proof (rule server_inv_update_cleared[OF assms \<open>get_lobby s c = Some l\<close> _ _ _ lm])
          show "get_lobby (endGame c None s1) = (get_lobby s)(c \<mapsto> ?m)"
            by (simp add: endGame_effect(1)[OF g1] g1')
          show "map_of (intervals (endGame c None s1)) =
                clearInterval (gameLoopInterval l) (map_of (intervals s))"
            by (simp add: endGame_effect(2)[OF g1] gl2 i1)
          show "nextInterval (endGame c None s1) = nextInterval s"
            by (simp add: endGame_effect(3)[OF g1] n1)
        qed
        then show ?thesis using True step by simp
      next
        case False
        have l2: "lobby_inv l2"
          using li False sc_sub ne_sub unfolding lobby_inv_def by (simp add: st2 gl2 ps2 gs2)
        have "server_inv (put_lobby c l2 s)"
          by (rule server_inv_update_same[OF assms \<open>get_lobby s c = Some l\<close> _ _ _ l2 st2 gl2])
            simp_all
        then show ?thesis using False step by (simp add: s1_def)
      qed
    qed
  qed
qed

lemma server_inv_updateBallPosition:
  assumes "server_inv s" shows "server_inv (updateBallPosition c e s)"
proof (cases "get_lobby s c")
  case None then show ?thesis using assms by (simp add: updateBallPosition_def)
next
  case (Some l)
  have li: "lobby_inv l" using assms Some by (rule server_inv_lobbyD)
  show ?thesis
  proof (cases "status (gameState l) = PLAYING")
    case False then show ?thesis using assms Some by (simp add: updateBallPosition_def)
  next
    case True
    let ?gs = "gameState l"
    let ?b = "collide (moveBall (ball ?gs)) (paddles ?gs)"
    obtain scorer sc b' where w: "walls e (players l) ?b (scores ?gs) = (scorer, sc, b')"
      by (cases "walls e (players l) ?b (scores ?gs)") auto
    let ?m = "l\<lparr>gameState := ?gs\<lparr>ball := b', scores := sc\<rparr>\<rparr>"
    let ?s1 = "put_lobby c ?m s"
    have "scored sc (map pid (players l))"
      using scored_walls[of "scores ?gs" "map pid (players l)" e "players l" ?b] li True w
      by (simp add: lobby_inv_def)
    moreover have "ball_ok b'"
    proof -
      have "ball_ok (ball ?gs)" using li by (simp add: lobby_inv_def)
      then have "ball_ok ?b" by (intro ball_ok_collide ball_ok_moveBall)
      then show ?thesis using w by (rule ball_ok_walls)
    qed
    ultimately have lm: "lobby_inv ?m" using li by (simp add: lobby_inv_def)
    have s1: "server_inv ?s1"
      by (rule server_inv_update_same[OF assms Some _ _ _ lm]) simp_all
    have "server_inv (endGame c x ?s1)" for x
      by (rule server_inv_endGame[OF s1]) (simp add: True)
    then show ?thesis using s1 Some True w
      by (simp add: updateBallPosition_def Let_def split: option.splits)
  qed
qed

lemma server_inv_intervalCallback:
  "server_inv s \<Longrightarrow> server_inv (intervalCallback c e s)"
  by (simp add: intervalCallback_def server_inv_updateBallPosition)

lemma server_inv_onMessage: "server_inv s \<Longrightarrow> server_inv (onMessage c i m e s)"
  by (cases m)
     (simp_all add: server_inv_handlePlayerReady server_inv_handleMovePaddle
        server_inv_handlePlayerLeave)

lemma reachable_server_inv: "reachable s \<Longrightarrow> server_inv s"
proof (induction rule: reachable.induct)
  case r_init
  show ?case by (rule server_inv_init)
next
  case (r_create s hostName codes uuid r s')
  then show ?case by (auto intro: server_inv_createLobby)
next
  case (r_join s lobbyCode playerName uuid)
  then show ?case by (simp add: server_inv_joinLobby)
next
  case (r_connection s wsId lobbyCode playerId)
  then show ?case by (simp add: server_inv_connection)
next
  case (r_message s wsId lobbyCode playerId m e)
  then show ?case by (simp add: server_inv_onMessage)
next
  case (r_close s wsId lobbyCode playerId)
  then show ?case by (simp add: onClose_def server_inv_handlePlayerLeave)
next
  case (r_readyState s wsId st)
  then show ?case by (simp add: server_inv_setReadyState)
next
  case (r_tick s h lobbyCode e)
  then show ?case by (simp add: server_inv_intervalCallback)
qed

section \<open>The run is reachable\<close>

lemma reachable_demo1: "reachable demo1"
proof -
  have "createLobby ''Alice'' [''ABCD''] ''u1'' init_server = Some (Inr (''ABCD'', ''player-u1''), demo1)"
    by code_simp
  then show ?thesis by (rule r_create[OF r_init])
qed

lemma reachable_demo6: "reachable demo6"
  unfolding demo6_def demo5_def demo4_def demo3_def demo2_def
  by (intro r_connection r_join reachable_demo1)

lemma reachable_demo7: "reachable demo7"
  unfolding demo7_def by (rule r_message[OF reachable_demo6, where wsId = 1]) code_simp

lemma reachable_demo8: "reachable demo8"
  unfolding demo8_def by (rule r_message[OF reachable_demo7, where wsId = 2]) code_simp

lemma reachable_demo9: "reachable demo9"
  unfolding demo9_def by (rule r_message[OF reachable_demo8, where wsId = 3]) code_simp

lemma reachable_demo10: "reachable demo10"
  unfolding demo10_def by (rule r_message[OF reachable_demo9, where wsId = 3]) code_simp

lemma reachable_demo11: "reachable demo11"
  unfolding demo11_def by (rule r_message[OF reachable_demo10, where wsId = 1]) code_simp

lemma reachable_demo12: "reachable demo12"
  unfolding demo12_def by (rule r_message[OF reachable_demo11, where wsId = 2]) code_simp

section \<open>What a broadcast sends\<close>

lemma length_markReady [simp]: "length (markReady i ps) = length ps"
  by (induction ps) auto

lemma sent_broadcast:
  "get_lobby s c = Some l \<Longrightarrow>
   sent (broadcastToLobby c m s) =
     sent s @ map (\<lambda>cl. (ws cl, m)) (filter (\<lambda>cl. ws_readyState cl = OPEN) (clients l))"
  by (simp add: broadcastToLobby_def)

lemma lobbies_broadcast [simp]: "lobbies (broadcastToLobby c m s) = lobbies s"
  by (simp add: broadcastToLobby_def split: option.splits)

lemma lobbies_updateGameState [simp]: "lobbies (updateGameState c s) = lobbies s"
  by (simp add: updateGameState_def split: option.splits)

lemma sent_updateGameState:
  "get_lobby s c = Some l \<Longrightarrow>
   sent (updateGameState c s) =
     sent s @ map (\<lambda>cl. (ws cl, GAME_STATE_UPDATE (gameState l)))
                (filter (\<lambda>cl. ws_readyState cl = OPEN) (clients l))"
  by (simp add: updateGameState_def sent_broadcast)

lemma lobbies_put [simp]: "lobbies (put_lobby c l s) = AList.update c l (lobbies s)"
  by (simp add: put_lobby_def)

section \<open>Status changes\<close>

lemma reachable_stale1: "reachable stale1"
  unfolding stale1_def by (rule r_message[OF reachable_demo8, where wsId = 3]) code_simp

lemma listener_stale1: "(3, ''ABCD'', ''player-u3'') \<in> set (listeners stale1)"
  by code_simp

lemma handleMovePaddle_not_playing:
  "get_lobby s c = Some l \<Longrightarrow> status (gameState l) \<noteq> PLAYING \<Longrightarrow> handleMovePaddle c i d s = s"
  by (simp add: handleMovePaddle_def)

lemma updateBallPosition_not_playing:
  "get_lobby s c = Some l \<Longrightarrow> status (gameState l) \<noteq> PLAYING \<Longrightarrow> updateBallPosition c e s = s"
  by (simp add: updateBallPosition_def)

lemma handlePlayerLeave_status:
  assumes "get_lobby s c = Some l" "status (gameState l) \<noteq> PLAYING"
    "get_lobby (handlePlayerLeave c i s) c = Some l'"
  shows "status (gameState l') = status (gameState l)"
proof (cases "findIndex (\<lambda>p. pid p = i) (players l)")
  case None
  then show ?thesis using assms by (simp add: handlePlayerLeave_def)
next
  case (Some k)
  then show ?thesis using assms
    by (auto simp: handlePlayerLeave_def Let_def split: if_splits)
qed

lemma joinLobby_status:
  assumes "get_lobby s c = Some l"
  shows "\<exists>l'. get_lobby (snd (joinLobby c n u s)) c = Some l' \<and>
              status (gameState l') = status (gameState l)"
  using assms by (simp add: joinLobby_def Let_def)

lemma handlePlayerReady_status:
  assumes "get_lobby s c = Some l"
  shows "\<exists>l'. get_lobby (handlePlayerReady c i e s) c = Some l' \<and>
           status (gameState l') =
             (if 2 \<le> length (players l) \<and> list_all isReady (markReady i (players l))
              then PLAYING else status (gameState l))"
proof -
  let ?l1 = "l\<lparr>players := markReady i (players l)\<rparr>"
  have g1: "get_lobby (put_lobby c ?l1 s) c = Some ?l1" by simp
  show ?thesis using assms
    by (simp add: handlePlayerReady_def Let_def startGame_effect(1)[OF g1])
qed

section \<open>Ticks of a running game\<close>

lemma arena_start:
  "setReadyState 3 CLOSING (setReadyState 2 CLOSING (setReadyState 1 CLOSING demo9)) =
     arena 250 0 \<lparr>ball_x = 300, ball_y = 300, velocityX = 3, velocityY = - 3\<rparr>"
  by code_simp

lemma flying_0: "flying 0 = \<lparr>ball_x = 300, ball_y = 300, velocityX = 3, velocityY = - 3\<rparr>"
  by (simp add: flying_def)

lemma dadd_exact:
  assumes "a \<in> \<int>" "b \<in> \<int>" "\<bar>a\<bar> \<le> 10000" "\<bar>b\<bar> \<le> 10000"
  shows "dadd a b = a + b"
proof -
  have "a + b \<in> \<int>" using assms by simp
  moreover have "\<bar>a + b\<bar> < 2 ^ 53" using assms by simp
  ultimately show ?thesis unfolding dadd_def by (rule fl_Ints)
qed

lemma flying_coords:
  assumes "k \<le> 101"
  shows "300 + 3 * (of_nat k :: rat) \<in> \<int>" "300 - 3 * (of_nat k :: rat) \<in> \<int>"
    "\<bar>300 + 3 * (of_nat k :: rat)\<bar> \<le> 10000" "\<bar>300 - 3 * (of_nat k :: rat)\<bar> \<le> 10000"
proof -
  have "(of_nat k :: rat) \<le> 101" using assms by simp
  moreover have "0 \<le> (of_nat k :: rat)" by simp
  ultimately show "\<bar>300 + 3 * (of_nat k :: rat)\<bar> \<le> 10000" "\<bar>300 - 3 * (of_nat k :: rat)\<bar> \<le> 10000"
    by linarith+
qed simp_all

lemma moveBall_flying:
  "k \<le> 100 \<Longrightarrow> moveBall (flying k) = flying (Suc k)"
  by (simp add: moveBall_def flying_def dadd_exact flying_coords)

lemma ten_flying:
  "k \<le> 101 \<Longrightarrow> dadd (ball_x (flying k)) 10 = 310 + 3 * of_nat k"
  "k \<le> 101 \<Longrightarrow> dadd (ball_y (flying k)) 10 = 310 - 3 * of_nat k"
  by (simp_all add: flying_def dadd_exact flying_coords)

lemma get_lobby_arena [simp]: "get_lobby (arena px n b) ''ABCD'' = Some (arena_lobby px n b)"
  by (simp add: get_lobby_def arena_def)

lemma arena_lobby_simps [simp]:
  "status (gameState (arena_lobby px n b)) = PLAYING"
  "ball (gameState (arena_lobby px n b)) = b"
  "paddles (gameState (arena_lobby px n b)) = arena_paddles px"
  "scores (gameState (arena_lobby px n b)) = arena_scores n"
  "players (arena_lobby px n b) = arena_players"
  "gameLoopInterval (arena_lobby px n b) = Some 0"
  "filter (\<lambda>c. ws_readyState c = OPEN) (clients (arena_lobby px n b)) = []"
  by (simp_all add: arena_lobby_def)

lemma no_collision_flying:
  assumes "k \<le> 101" "px \<le> 250"
  shows "collide (flying k) (arena_paddles px) = flying k"
proof -
  have k: "(of_nat k :: rat) \<le> 101" "0 \<le> (of_nat k :: rat)" using assms by simp_all
  have p: "(of_int px :: rat) \<le> 250" using assms by simp
  have x: "ball_x (flying k) = 300 + 3 * of_nat k" and y: "ball_y (flying k) = 300 - 3 * of_nat k"
    by (simp_all add: flying_def)
  have t: "dadd (300 + 3 * of_nat k) 10 = 310 + 3 * of_nat k"
    "dadd (300 - 3 * of_nat k) 10 = 310 - 3 * of_nat k"
    using ten_flying[OF assms(1)] by (simp_all add: flying_def)
  have "\<not> checkCollision (flying k) p" if "p \<in> set (arena_paddles px)" for p
    using that k p by (auto simp: checkCollision_def t x y arena_paddles_def)
  then show ?thesis by (simp add: arena_paddles_def)
qed

lemma arena_ball_update:
  "put_lobby ''ABCD'' (arena_lobby px n b\<lparr>gameState := gameState (arena_lobby px n b)\<lparr>ball := b', scores := arena_scores n'\<rparr>\<rparr>)
     (arena px n b) = arena px n' b'"
  by (simp add: put_lobby_def arena_def arena_lobby_def)

lemma updateGameState_arena [simp]: "updateGameState ''ABCD'' (arena px n b) = arena px n b"
  by (simp add: updateGameState_def broadcastToLobby_def)

lemma tick_flight:
  assumes "k < 100" "px \<le> 250"
  shows "intervalCallback ''ABCD'' e (arena px n (flying k)) = arena px n (flying (Suc k))"
proof -
  have k: "(of_nat k :: rat) < 100" "0 \<le> (of_nat k :: rat)" using assms by simp_all
  have c: "collide (moveBall (flying k)) (arena_paddles px) = flying (Suc k)"
    using assms by (simp add: moveBall_flying no_collision_flying)
  have w: "walls e arena_players (flying (Suc k)) (arena_scores n) =
             (None, arena_scores n, flying (Suc k))"
    using k by (simp add: walls_def flying_def)
  show ?thesis
    by (simp add: intervalCallback_def updateBallPosition_def c w arena_ball_update)
qed

lemma interval_arena [simp]: "map_of (intervals (arena px n b)) 0 = Some ''ABCD''"
  by (simp add: arena_def)

lemma listeners_arena [simp]:
  "listeners (arena px n b) =
     [(1, ''ABCD'', ''player-u1''), (2, ''ABCD'', ''player-u2''), (3, ''ABCD'', ''player-u3'')]"
  by (simp add: arena_def)

lemma walls_top:
  "walls demo_env arena_players (flying 101) (arena_scores n) =
     (Some ''player-u3'', arena_scores (n + 1), flying 0)"
  by (simp add: walls_def flying_def award_def arena_players_def arena_scores_def resetBall_def
        randomVelocity_def demo_env_def)

lemma tick_score:
  assumes "n < 9" "px \<le> 250"
  shows "intervalCallback ''ABCD'' demo_env (arena px n (flying 100)) = arena px (n + 1) (flying 0)"
proof -
  have c: "collide (moveBall (flying 100)) (arena_paddles px) = flying 101"
    using assms by (simp add: moveBall_flying no_collision_flying)
  have g: "\<not> score_ge (map_of (arena_scores (n + 1)) ''player-u3'') 10"
    using assms by (simp add: arena_scores_def)
  show ?thesis
    using g by (simp add: intervalCallback_def updateBallPosition_def c walls_top arena_ball_update)
qed

lemma reachable_arena_start: "reachable (arena 250 0 (flying 0))"
  unfolding flying_0 arena_start[symmetric]
  by (intro r_readyState reachable_demo9)

lemma reachable_arena_flight:
  assumes "reachable (arena px n (flying 0))" "px \<le> 250" "k \<le> 100"
  shows "reachable (arena px n (flying k))"
  using assms(3)
proof (induction k)
  case 0
  show ?case by (rule assms(1))
next
  case (Suc k)
  then have "reachable (arena px n (flying k))" by simp
  then have "reachable (intervalCallback ''ABCD'' demo_env (arena px n (flying k)))"
    by (rule r_tick[where h = 0]) simp
  then show ?case using Suc.prems assms(2) by (simp add: tick_flight)
qed

lemma reachable_arena_score:
  assumes "px \<le> 250" "reachable (arena px 0 (flying 0))" "n \<le> 9"
  shows "reachable (arena px (int n) (flying 0))"
  using assms(3)
proof (induction n)
  case 0
  show ?case using assms(2) by simp
next
  case (Suc n)
  then have "reachable (arena px (int n) (flying 0))" by simp
  then have "reachable (arena px (int n) (flying 100))"
    using assms(1) by (rule reachable_arena_flight) simp
  then have "reachable (intervalCallback ''ABCD'' demo_env (arena px (int n) (flying 100)))"
    by (rule r_tick[where h = 0]) simp
  then show ?case using Suc.prems assms(1) by (simp add: tick_score add.commute)
qed

lemma reachable_arena:
  assumes "n \<le> 9" "k \<le> 100" shows "reachable (arena 250 (int n) (flying k))"
proof -
  have "reachable (arena 250 (int n) (flying 0))"
    using _ reachable_arena_start assms(1) by (rule reachable_arena_score) simp
  then show ?thesis using _ assms(2) by (rule reachable_arena_flight) simp
qed

lemma arena_paddles_update:
  "put_lobby ''ABCD''
     (arena_lobby px n b\<lparr>gameState := gameState (arena_lobby px n b)\<lparr>paddles := arena_paddles px'\<rparr>\<rparr>)
     (arena px n b) = arena px' n b"
  by (simp add: put_lobby_def arena_def arena_lobby_def)

lemma move_left_paddles:
  "0 < px \<Longrightarrow>
   updateFirst (\<lambda>p. paddle_playerId p = ''player-u1'') (movePaddle ''LEFT'') (arena_paddles px) =
     arena_paddles (px - 10)"
  by (simp add: arena_paddles_def movePaddle_def)

lemma find_arena_paddle:
  "find (\<lambda>p. paddle_playerId p = ''player-u1'') (arena_paddles px) =
     Some \<lparr>paddle_playerId = ''player-u1'', paddle_position = TOP,
            paddle_x = px, paddle_y = 20, width = 100, height = 10\<rparr>"
  by (simp add: arena_paddles_def)

lemma move_left_arena:
  assumes "0 < px"
  shows "handleMovePaddle ''ABCD'' ''player-u1'' ''LEFT'' (arena px n b) = arena (px - 10) n b"
  using assms
  by (simp add: handleMovePaddle_def find_arena_paddle move_left_paddles arena_paddles_update)

lemma reachable_arena_left:
  assumes "j \<le> 25" shows "reachable (arena (250 - 10 * int j) 0 (flying 0))"
  using assms
proof (induction j)
  case 0
  show ?case using reachable_arena_start by simp
next
  case (Suc j)
  then have r: "reachable (arena (250 - 10 * int j) 0 (flying 0))" by simp
  have "reachable (onMessage ''ABCD'' ''player-u1'' (MOVE_PADDLE ''LEFT'') demo_env
          (arena (250 - 10 * int j) 0 (flying 0)))"
    by (rule r_message[OF r, where wsId = 1]) simp
  moreover have "250 - 10 * int (Suc j) = 250 - 10 * int j - 10" by simp
  ultimately show ?case using Suc.prems by (simp add: move_left_arena)
qed

lemma reachable_arena_edge: "reachable (arena 0 0 (flying 0))"
  using reachable_arena_left[of 25] by simp

section \<open>Effect of a tick\<close>

lemma ball_collide [simp]:
  "ball_x (collide b ps) = ball_x b" "ball_y (collide b ps) = ball_y b"
  by (induction ps) (simp_all add: bounce_def Let_def)

lemma updateBallPosition_lobby:
  assumes "get_lobby s c = Some l" "status (gameState l) = PLAYING"
    "walls e (players l) (collide (moveBall (ball (gameState l))) (paddles (gameState l)))
       (scores (gameState l)) = (scorer, sc, b')"
  shows "\<exists>l'. get_lobby (updateBallPosition c e s) c = Some l' \<and>
           ball (gameState l') = b' \<and> scores (gameState l') = sc \<and>
           paddles (gameState l') = paddles (gameState l) \<and>
           status (gameState l') =
             (if \<exists>w. scorer = Some w \<and> w \<noteq> [] \<and> score_ge (map_of sc w) 10
              then GAME_OVER else PLAYING)"
proof -
  let ?m = "l\<lparr>gameState := (gameState l)\<lparr>ball := b', scores := sc\<rparr>\<rparr>"
  have g: "get_lobby (put_lobby c ?m s) c = Some ?m" by simp
  show ?thesis
  proof (cases "\<exists>w. scorer = Some w \<and> w \<noteq> [] \<and> score_ge (map_of sc w) 10")
    case True
    then obtain w where w: "scorer = Some w" "w \<noteq> []" "score_ge (map_of sc w) 10" by blast
    have "updateBallPosition c e s = endGame c (Some w) (put_lobby c ?m s)"
      using assms w by (simp add: updateBallPosition_def Let_def)
    then show ?thesis using True by (simp add: endGame_effect(1)[OF g])
  next
    case False
    then have "updateBallPosition c e s = put_lobby c ?m s"
      using assms by (auto simp: updateBallPosition_def Let_def split: option.splits)
    then show ?thesis using False assms(2) by simp
  qed
qed

lemma find_Some_set: "find P xs = Some x \<Longrightarrow> x \<in> set xs \<and> P x"
  by (induction xs) (auto split: if_splits)

lemma reachable_scored:
  assumes "reachable s" "get_lobby s c = Some l" "status (gameState l) = PLAYING" "q \<in> set (players l)"
  shows "\<exists>n. map_of (scores (gameState l)) (pid q) = Some (Num n)" and "pid q \<noteq> []"
proof -
  have "lobby_inv l" using assms(1,2) by (auto dest: reachable_server_inv server_inv_lobbyD)
  then have "scored (scores (gameState l)) (map pid (players l))" "[] \<notin> set (map pid (players l))"
    using assms(3) by (simp_all add: lobby_inv_def)
  then show "\<exists>n. map_of (scores (gameState l)) (pid q) = Some (Num n)" "pid q \<noteq> []"
    using assms(4) by (force simp: scored_def)+
qed

lemma award_mono:
  assumes "map_of sc i = Some (Num n)"
  shows "\<exists>n'. map_of (snd (award side ps sc)) i = Some (Num n') \<and> n \<le> n'"
  using assms by (auto simp: award_def update_conv' split: option.splits)

lemma walls_mono:
  assumes "map_of sc i = Some (Num n)"
  shows "\<exists>n'. map_of (fst (snd (walls e ps b sc))) i = Some (Num n') \<and> n \<le> n'"
  using assms by (simp add: walls_def award_mono)

lemma award_changed:
  assumes "map_of (snd (award side ps sc)) i \<noteq> map_of sc i"
  shows "\<exists>q \<in> set ps. fst (award side ps sc) = Some (pid q) \<and> i = pid q"
  using assms
  by (auto simp: award_def update_conv' split: option.splits if_splits dest: find_Some_set)

lemma walls_changed:
  assumes "map_of (fst (snd (walls e ps b sc))) i \<noteq> map_of sc i"
  shows "\<exists>q \<in> set ps. fst (walls e ps b sc) = Some (pid q) \<and> i = pid q"
  using assms by (auto simp: walls_def split: if_splits dest!: award_changed)

lemma intervalCallback_not_playing:
  "get_lobby s c = Some l \<Longrightarrow> status (gameState l) \<noteq> PLAYING \<Longrightarrow>
   get_lobby (intervalCallback c e s) = get_lobby s"
  by (simp add: intervalCallback_def updateBallPosition_not_playing)

lemma ticks_not_playing:
  "get_lobby s c = Some l \<Longrightarrow> status (gameState l) \<noteq> PLAYING \<Longrightarrow>
   get_lobby (ticks c es s) = get_lobby s"
proof (induction es arbitrary: s)
  case Nil
  show ?case by simp
next
  case (Cons e es)
  have g: "get_lobby (intervalCallback c e s) = get_lobby s"
    using Cons.prems by (rule intervalCallback_not_playing)
  then have "get_lobby (intervalCallback c e s) c = Some l" using Cons.prems by simp
  from Cons.IH[OF this Cons.prems(2)] g show ?case by simp
qed

lemma intervalCallback_lobby:
  assumes "get_lobby s c = Some l" "status (gameState l) = PLAYING"
  shows "\<exists>l'. get_lobby (intervalCallback c e s) c = Some l' \<and>
     scores (gameState l') =
       fst (snd (walls e (players l) (collide (moveBall (ball (gameState l))) (paddles (gameState l)))
                  (scores (gameState l)))) \<and>
     status (gameState l') =
       (if \<exists>w. fst (walls e (players l) (collide (moveBall (ball (gameState l))) (paddles (gameState l)))
                  (scores (gameState l))) = Some w \<and> w \<noteq> [] \<and>
               score_ge (map_of (scores (gameState l')) w) 10
        then GAME_OVER else PLAYING)"
proof -
  let ?w = "walls e (players l) (collide (moveBall (ball (gameState l))) (paddles (gameState l)))
                  (scores (gameState l))"
  have "?w = (fst ?w, fst (snd ?w), snd (snd ?w))" by simp
  from updateBallPosition_lobby[OF assms this]
  show ?thesis by (auto simp: intervalCallback_def)
qed

lemma tick_mono:
  assumes "get_lobby s c = Some l"
  shows "\<exists>l'. get_lobby (intervalCallback c e s) c = Some l' \<and>
           (\<forall>i n. map_of (scores (gameState l)) i = Some (Num n) \<longrightarrow>
              (\<exists>n'. map_of (scores (gameState l')) i = Some (Num n') \<and> n \<le> n'))"
proof (cases "status (gameState l) = PLAYING")
  case True
  from intervalCallback_lobby[OF assms True, of e]
  show ?thesis using walls_mono by fastforce
next
  case False
  then show ?thesis using assms by (simp add: intervalCallback_not_playing)
qed

lemma ticks_mono:
  assumes "get_lobby s c = Some l"
  shows "\<exists>l'. get_lobby (ticks c es s) c = Some l' \<and>
           (\<forall>i n. map_of (scores (gameState l)) i = Some (Num n) \<longrightarrow>
              (\<exists>n'. map_of (scores (gameState l')) i = Some (Num n') \<and> n \<le> n'))"
  using assms
proof (induction es arbitrary: s l)
  case Nil
  then show ?case by simp
next
  case (Cons e es)
  from tick_mono[OF Cons.prems, of e] obtain l1 where
    l1: "get_lobby (intervalCallback c e s) c = Some l1"
    and m1: "\<And>i n. map_of (scores (gameState l)) i = Some (Num n) \<Longrightarrow>
              \<exists>n'. map_of (scores (gameState l1)) i = Some (Num n') \<and> n \<le> n'"
    by blast
  from Cons.IH[OF l1] obtain l' where
    l': "get_lobby (ticks c es (intervalCallback c e s)) c = Some l'"
    and m2: "\<And>i n. map_of (scores (gameState l1)) i = Some (Num n) \<Longrightarrow>
              \<exists>n'. map_of (scores (gameState l')) i = Some (Num n') \<and> n \<le> n'"
    by blast
  have "\<exists>n'. map_of (scores (gameState l')) i = Some (Num n') \<and> n \<le> n'"
    if "map_of (scores (gameState l)) i = Some (Num n)" for i n
  proof -
    from m1[OF that] obtain n1 where "map_of (scores (gameState l1)) i = Some (Num n1)" "n \<le> n1"
      by blast
    with m2[of i n1] show ?thesis by force
  qed
  then show ?case using l' by simp
qed

lemma tick_win:
  "\<exists>l'. get_lobby (intervalCallback ''ABCD'' demo_env (arena 250 9 (flying 100))) ''ABCD'' = Some l' \<and>
        scores (gameState l') = arena_scores 10"
proof -
  have c: "collide (moveBall (flying 100)) (arena_paddles 250) = flying 101"
    by (simp add: moveBall_flying no_collision_flying)
  have g: "get_lobby (arena 250 9 (flying 100)) ''ABCD'' = Some (arena_lobby 250 9 (flying 100))"
    by simp
  from intervalCallback_lobby[OF g, of demo_env] show ?thesis
    using walls_top[of 9] by (auto simp: c)
qed

section \<open>Paddles\<close>

lemma find_updateFirst:
  assumes "\<And>x. P x \<Longrightarrow> P (f x)"
  shows "find P (updateFirst P f xs) = map_option f (find P xs)"
  by (induction xs) (simp_all add: assms)

lemma playerId_movePaddle [simp]: "paddle_playerId (movePaddle d p) = paddle_playerId p"
  by (simp add: movePaddle_def)

lemma handleMovePaddle_lobby:
  assumes "get_lobby s c = Some l" "status (gameState l) = PLAYING"
    "find (\<lambda>p. paddle_playerId p = i) (paddles (gameState l)) = Some p"
  shows "\<exists>l'. get_lobby (handleMovePaddle c i d s) c = Some l' \<and>
           find (\<lambda>p. paddle_playerId p = i) (paddles (gameState l')) = Some (movePaddle d p) \<and>
           ball (gameState l') = ball (gameState l) \<and> status (gameState l') = PLAYING"
  using assms by (simp add: handleMovePaddle_def Let_def find_updateFirst)

lemma reachable_paddle_ok:
  assumes "reachable s" "get_lobby s c = Some l" "p \<in> set (paddles (gameState l))"
  shows "paddle_ok p"
proof -
  have "lobby_inv l" using assms(1,2) by (auto dest: reachable_server_inv server_inv_lobbyD)
  then show ?thesis using assms(3) by (simp add: lobby_inv_def)
qed

section \<open>The bounce\<close>


section \<open>A serve towards the bottom paddle\<close>





lemma get_lobby_court [simp]: "get_lobby (court qx b) ''ABCD'' = Some (court_lobby qx b)"
  by (simp add: get_lobby_def court_def)

lemma court_lobby_simps [simp]:
  "status (gameState (court_lobby qx b)) = PLAYING"
  "ball (gameState (court_lobby qx b)) = b"
  "paddles (gameState (court_lobby qx b)) = court_paddles qx"
  "scores (gameState (court_lobby qx b)) = arena_scores 1"
  "players (court_lobby qx b) = arena_players"
  "gameLoopInterval (court_lobby qx b) = Some 0"
  "filter (\<lambda>c. ws_readyState c = OPEN) (clients (court_lobby qx b)) = []"
  by (simp_all add: court_lobby_def)

lemma interval_court [simp]: "map_of (intervals (court qx b)) 0 = Some ''ABCD''"
  by (simp add: court_def)

lemma listeners_court [simp]:
  "listeners (court qx b) =
     [(1, ''ABCD'', ''player-u1''), (2, ''ABCD'', ''player-u2''), (3, ''ABCD'', ''player-u3'')]"
  by (simp add: court_def)

lemma updateGameState_court [simp]: "updateGameState ''ABCD'' (court qx b) = court qx b"
  by (simp add: updateGameState_def broadcastToLobby_def)















section \<open>Claims\<close>

text \<open>
  C4. In every reachable state an interval that is set belongs to a lobby that is in the
  map, has status PLAYING and holds exactly this handle; a lobby whose status is not
  PLAYING has its handle cleared. So no tick timer keeps firing for a destroyed or a
  non-PLAYING lobby: \<open>endGame\<close> clears the interval whenever the status leaves PLAYING,
  and a lobby is only deleted when its last player leaves, which cannot happen while it
  is PLAYING (a game starts with at least two players and ends when one of them leaves).
\<close>

theorem tick_loop_only_while_playing:
  assumes "reachable s"
  shows "(\<forall>h c. map_of (intervals s) h = Some c \<longrightarrow>
            (\<exists>l. get_lobby s c = Some l \<and> status (gameState l) = PLAYING \<and>
                 gameLoopInterval l = Some h)) \<and>
         (\<forall>c l. get_lobby s c = Some l \<and> status (gameState l) \<noteq> PLAYING \<longrightarrow>
            gameLoopInterval l = None)"
  using reachable_server_inv[OF assms]
  unfolding server_inv_def lobby_inv_def by blast

theorem tick_loop_only_while_playing_witness:
  "reachable demo9 \<and> map_of (intervals demo9) 0 = Some ''ABCD'' \<and>
   (\<exists>l. get_lobby demo9 ''ABCD'' = Some l \<and> status (gameState l) = PLAYING \<and>
        gameLoopInterval l = Some 0) \<and>
   reachable demo10 \<and> intervals demo10 = [] \<and>
   (\<exists>l. get_lobby demo10 ''ABCD'' = Some l \<and> status (gameState l) = GAME_OVER \<and>
        gameLoopInterval l = None)"
proof -
  have a: "map_of (intervals demo9) 0 = Some ''ABCD''" by code_simp
  have b: "intervals demo10 = []" by code_simp
  have c: "map_option (\<lambda>l. status (gameState l)) (get_lobby demo10 ''ABCD'') = Some GAME_OVER"
    by code_simp
  from tick_loop_only_while_playing[OF reachable_demo9] a
  have 1: "\<exists>l. get_lobby demo9 ''ABCD'' = Some l \<and> status (gameState l) = PLAYING \<and>
        gameLoopInterval l = Some 0" by blast
  from c obtain l where l: "get_lobby demo10 ''ABCD'' = Some l" "status (gameState l) = GAME_OVER"
    by auto
  with tick_loop_only_while_playing[OF reachable_demo10]
  have "gameLoopInterval l = None" by auto
  with l have 2: "\<exists>l. get_lobby demo10 ''ABCD'' = Some l \<and> status (gameState l) = GAME_OVER \<and>
        gameLoopInterval l = None" by blast
  show ?thesis using reachable_demo9 reachable_demo10 a b 1 2 by blast
qed

text \<open>
  C7. For a lobby in status WAITING, \<open>handlePlayerReady\<close> leaves the lobby in status
  PLAYING if and only if, once the sender's flag is set (\<open>markReady\<close>), there are at least
  two players and all of them are ready. Otherwise the only change to the lobby is the
  sender's flag, no interval is set, and exactly one \<^verbatim>\<open>GAME_STATE_UPDATE\<close> goes to every
  open client.
\<close>

theorem handlePlayerReady_starts_iff_all_ready:
  assumes "get_lobby s c = Some l" "status (gameState l) = WAITING"
  shows "(\<exists>l'. get_lobby (handlePlayerReady c i e s) c = Some l' \<and>
            (status (gameState l') = PLAYING \<longleftrightarrow>
               2 \<le> length (markReady i (players l)) \<and> list_all isReady (markReady i (players l)))) \<and>
         (\<not> (2 \<le> length (markReady i (players l)) \<and> list_all isReady (markReady i (players l))) \<longrightarrow>
            lobbies (handlePlayerReady c i e s) =
              AList.update c (l\<lparr>players := markReady i (players l)\<rparr>) (lobbies s) \<and>
            intervals (handlePlayerReady c i e s) = intervals s \<and>
            nextInterval (handlePlayerReady c i e s) = nextInterval s \<and>
            listeners (handlePlayerReady c i e s) = listeners s \<and>
            sent (handlePlayerReady c i e s) =
              sent s @ map (\<lambda>cl. (ws cl, GAME_STATE_UPDATE (gameState l)))
                         (filter (\<lambda>cl. ws_readyState cl = OPEN) (clients l)))"
proof -
  let ?l1 = "l\<lparr>players := markReady i (players l)\<rparr>"
  let ?s1 = "put_lobby c ?l1 s"
  have g1: "get_lobby ?s1 c = Some ?l1" by simp
  show ?thesis
  proof (cases "2 \<le> length (markReady i (players l)) \<and> list_all isReady (markReady i (players l))")
    case True
    then have "handlePlayerReady c i e s = startGame c e ?s1"
      using assms(1) by (simp add: handlePlayerReady_def Let_def)
    then show ?thesis using True by (simp add: startGame_effect(1)[OF g1])
  next
    case False
    then have "handlePlayerReady c i e s = updateGameState c ?s1"
      using assms(1) by (auto simp: handlePlayerReady_def Let_def)
    then show ?thesis using False assms(2) by (simp add: sent_updateGameState[OF g1])
  qed
qed

theorem handlePlayerReady_starts_iff_all_ready_witness:
  "(\<exists>l. get_lobby demo8 ''ABCD'' = Some l \<and> status (gameState l) = WAITING \<and>
        list_all isReady (markReady ''player-u3'' (players l)) \<and> length (players l) = 3) \<and>
   (\<exists>l'. get_lobby (handlePlayerReady ''ABCD'' ''player-u3'' demo_env demo8) ''ABCD'' = Some l' \<and>
        status (gameState l') = PLAYING) \<and>
   (\<exists>l. get_lobby demo6 ''ABCD'' = Some l \<and> status (gameState l) = WAITING \<and>
        \<not> list_all isReady (markReady ''player-u1'' (players l))) \<and>
   (\<exists>l'. get_lobby (handlePlayerReady ''ABCD'' ''player-u1'' demo_env demo6) ''ABCD'' = Some l' \<and>
        status (gameState l') \<noteq> PLAYING)"
proof -
  have "map_option (\<lambda>l. (status (gameState l), list_all isReady (markReady ''player-u3'' (players l)),
           length (players l))) (get_lobby demo8 ''ABCD'') = Some (WAITING, True, 3)"
    by code_simp
  then obtain l where l: "get_lobby demo8 ''ABCD'' = Some l" "status (gameState l) = WAITING"
    "list_all isReady (markReady ''player-u3'' (players l))" "length (players l) = 3"
    by auto
  have "map_option (\<lambda>l. (status (gameState l), list_all isReady (markReady ''player-u1'' (players l))))
          (get_lobby demo6 ''ABCD'') = Some (WAITING, False)"
    by code_simp
  then obtain m where m: "get_lobby demo6 ''ABCD'' = Some m" "status (gameState m) = WAITING"
    "\<not> list_all isReady (markReady ''player-u1'' (players m))"
    by auto
  from handlePlayerReady_starts_iff_all_ready[OF l(1,2), of "''player-u3''" demo_env] l(3,4)
  have 1: "\<exists>l'. get_lobby (handlePlayerReady ''ABCD'' ''player-u3'' demo_env demo8) ''ABCD'' = Some l' \<and>
        status (gameState l') = PLAYING"
    by auto
  from handlePlayerReady_starts_iff_all_ready[OF m(1,2), of "''player-u1''" demo_env] m(3)
  have 2: "\<exists>l'. get_lobby (handlePlayerReady ''ABCD'' ''player-u1'' demo_env demo6) ''ABCD'' = Some l' \<and>
        status (gameState l') \<noteq> PLAYING"
    by auto
  show ?thesis using l m 1 2 by blast
qed

text \<open>
  C10. \<open>joinLobby\<close> never reads the status. With a non-empty code that is in the map, fewer
  than four players and a non-empty name the join succeeds whatever the status is: the
  player is appended, gets the score entry 0, and the paddles stay as they are.
\<close>

theorem joinLobby_ignores_status:
  assumes "get_lobby s c = Some l" "length (players l) < 4" "c \<noteq> []" "n \<noteq> []"
  shows "fst (joinLobby c n u s) = Inr (''player-'' @ u, c) \<and>
         (\<exists>l'. get_lobby (snd (joinLobby c n u s)) c = Some l' \<and>
            players l' = players l @
              [\<lparr>pid = ''player-'' @ u, name = n, isReady = False,
                position = positions ! length (players l)\<rparr>] \<and>
            scores (gameState l') = AList.update (''player-'' @ u) (Num 0) (scores (gameState l)) \<and>
            map_of (scores (gameState l')) (''player-'' @ u) = Some (Num 0) \<and>
            paddles (gameState l') = paddles (gameState l) \<and>
            status (gameState l') = status (gameState l))"
  using assms by (simp add: joinLobby_def Let_def update_conv')

theorem joinLobby_ignores_status_witness:
  "(\<exists>l. get_lobby demo9 ''ABCD'' = Some l \<and> status (gameState l) = PLAYING \<and> length (players l) < 4) \<and>
   fst (joinLobby ''ABCD'' ''Dave'' ''u4'' demo9) = Inr (''player-u4'', ''ABCD'') \<and>
   (\<exists>l'. get_lobby (snd (joinLobby ''ABCD'' ''Dave'' ''u4'' demo9)) ''ABCD'' = Some l' \<and>
      length (players l') = 4 \<and> length (paddles (gameState l')) = 3 \<and>
      map_of (scores (gameState l')) ''player-u4'' = Some (Num 0) \<and>
      status (gameState l') = PLAYING) \<and>
   (\<exists>l. get_lobby demo10 ''ABCD'' = Some l \<and> status (gameState l) = GAME_OVER \<and> length (players l) < 4) \<and>
   fst (joinLobby ''ABCD'' ''Dave'' ''u4'' demo10) = Inr (''player-u4'', ''ABCD'') \<and>
   (\<exists>l'. get_lobby (snd (joinLobby ''ABCD'' ''Dave'' ''u4'' demo10)) ''ABCD'' = Some l' \<and>
      length (players l') = 3 \<and> length (paddles (gameState l')) = 3 \<and>
      map_of (scores (gameState l')) ''player-u4'' = Some (Num 0) \<and>
      status (gameState l') = GAME_OVER)"
proof -
  have "map_option (\<lambda>l. (status (gameState l), length (players l), length (paddles (gameState l))))
          (get_lobby demo9 ''ABCD'') = Some (PLAYING, 3, 3)"
    by code_simp
  then obtain l where l: "get_lobby demo9 ''ABCD'' = Some l" "status (gameState l) = PLAYING"
    "length (players l) = 3" "length (paddles (gameState l)) = 3"
    by auto
  have lt: "length (players l) < 4" using l by simp
  have "map_option (\<lambda>l. (status (gameState l), length (players l), length (paddles (gameState l))))
          (get_lobby demo10 ''ABCD'') = Some (GAME_OVER, 2, 3)"
    by code_simp
  then obtain m where m: "get_lobby demo10 ''ABCD'' = Some m" "status (gameState m) = GAME_OVER"
    "length (players m) = 2" "length (paddles (gameState m)) = 3"
    by auto
  have mt: "length (players m) < 4" using m by simp
  from joinLobby_ignores_status[OF l(1) lt, of "''Dave''" "''u4''"] l
  have 1: "fst (joinLobby ''ABCD'' ''Dave'' ''u4'' demo9) = Inr (''player-u4'', ''ABCD'') \<and>
   (\<exists>l'. get_lobby (snd (joinLobby ''ABCD'' ''Dave'' ''u4'' demo9)) ''ABCD'' = Some l' \<and>
      length (players l') = 4 \<and> length (paddles (gameState l')) = 3 \<and>
      map_of (scores (gameState l')) ''player-u4'' = Some (Num 0) \<and>
      status (gameState l') = PLAYING)"
    by auto
  from joinLobby_ignores_status[OF m(1) mt, of "''Dave''" "''u4''"] m
  have 2: "fst (joinLobby ''ABCD'' ''Dave'' ''u4'' demo10) = Inr (''player-u4'', ''ABCD'') \<and>
   (\<exists>l'. get_lobby (snd (joinLobby ''ABCD'' ''Dave'' ''u4'' demo10)) ''ABCD'' = Some l' \<and>
      length (players l') = 3 \<and> length (paddles (gameState l')) = 3 \<and>
      map_of (scores (gameState l')) ''player-u4'' = Some (Num 0) \<and>
      status (gameState l') = GAME_OVER)"
    by auto
  show ?thesis using l lt m mt 1 2 by blast
qed

text \<open>
  C1, as the specification states it, fails: \<open>handlePlayerReady\<close> does not read the
  status, so after a game has ended (Carol left, \<open>demo10\<close>) the two remaining players
  start the next game by sending \<^verbatim>\<open>PLAYER_READY\<close> again.
\<close>

theorem GAME_OVER_not_terminal:
  "reachable demo10 \<and>
   map_option (status \<circ> gameState) (get_lobby demo10 ''ABCD'') = Some GAME_OVER \<and>
   reachable demo12 \<and>
   demo12 = onMessage ''ABCD'' ''player-u2'' PLAYER_READY demo_env
              (onMessage ''ABCD'' ''player-u1'' PLAYER_READY demo_env demo10) \<and>
   map_option (status \<circ> gameState) (get_lobby demo12 ''ABCD'') = Some PLAYING"
proof -
  have "map_option (status \<circ> gameState) (get_lobby demo10 ''ABCD'') = Some GAME_OVER"
    by code_simp
  moreover have "map_option (status \<circ> gameState) (get_lobby demo12 ''ABCD'') = Some PLAYING"
    by code_simp
  ultimately show ?thesis
    using reachable_demo10 reachable_demo12 by (simp add: demo12_def demo11_def)
qed

text \<open>
  C1, amended. In status GAME_OVER a \<^verbatim>\<open>MOVE_PADDLE\<close> and a tick change nothing in the
  lobby, a departure and a join keep the status (a departure may delete the lobby), and
  \<open>handlePlayerReady\<close> sets the status to PLAYING exactly when, with the sender's flag
  set, there are at least two players and all of them are ready; otherwise the status
  stays GAME_OVER.
\<close>

theorem GAME_OVER_left_only_by_unanimous_ready:
  assumes "get_lobby s c = Some l" "status (gameState l) = GAME_OVER"
  shows "handleMovePaddle c i d s = s \<and>
         updateBallPosition c e s = s \<and>
         get_lobby (intervalCallback c e s) = get_lobby s \<and>
         (\<forall>l'. get_lobby (handlePlayerLeave c i s) c = Some l' \<longrightarrow>
               status (gameState l') = GAME_OVER) \<and>
         (\<exists>l'. get_lobby (snd (joinLobby c n u s)) c = Some l' \<and>
               status (gameState l') = GAME_OVER) \<and>
         (\<exists>l'. get_lobby (handlePlayerReady c i e s) c = Some l' \<and>
               status (gameState l') =
                 (if 2 \<le> length (players l) \<and> list_all isReady (markReady i (players l))
                  then PLAYING else GAME_OVER))"
proof -
  have np: "status (gameState l) \<noteq> PLAYING" using assms(2) by simp
  have 1: "handleMovePaddle c i d s = s"
    using assms(1) np by (rule handleMovePaddle_not_playing)
  have 2: "updateBallPosition c e s = s"
    using assms(1) np by (rule updateBallPosition_not_playing)
  have 3: "get_lobby (intervalCallback c e s) = get_lobby s"
    by (simp add: intervalCallback_def 2)
  have 4: "\<forall>l'. get_lobby (handlePlayerLeave c i s) c = Some l' \<longrightarrow>
               status (gameState l') = GAME_OVER"
    using handlePlayerLeave_status[OF assms(1) np] assms(2) by simp
  have 5: "\<exists>l'. get_lobby (snd (joinLobby c n u s)) c = Some l' \<and>
               status (gameState l') = GAME_OVER"
    using joinLobby_status[OF assms(1), of n u] assms(2) by simp
  have 6: "\<exists>l'. get_lobby (handlePlayerReady c i e s) c = Some l' \<and>
               status (gameState l') =
                 (if 2 \<le> length (players l) \<and> list_all isReady (markReady i (players l))
                  then PLAYING else GAME_OVER)"
    using handlePlayerReady_status[OF assms(1), of i e] unfolding assms(2) .
  show ?thesis using 1 2 3 4 5 6 by blast
qed

theorem GAME_OVER_left_only_by_unanimous_ready_witness:
  "(\<exists>l. get_lobby demo11 ''ABCD'' = Some l \<and> status (gameState l) = GAME_OVER \<and>
        length (players l) = 2 \<and>
        list_all isReady (markReady ''player-u2'' (players l)) \<and>
        \<not> list_all isReady (markReady ''player-u1'' (players l))) \<and>
   handleMovePaddle ''ABCD'' ''player-u1'' ''LEFT'' demo11 = demo11 \<and>
   updateBallPosition ''ABCD'' demo_env demo11 = demo11 \<and>
   (\<exists>l'. get_lobby (handlePlayerLeave ''ABCD'' ''player-u2'' demo11) ''ABCD'' = Some l' \<and>
         status (gameState l') = GAME_OVER) \<and>
   (\<exists>l'. get_lobby (snd (joinLobby ''ABCD'' ''Dave'' ''u4'' demo11)) ''ABCD'' = Some l' \<and>
         status (gameState l') = GAME_OVER) \<and>
   (\<exists>l'. get_lobby (handlePlayerReady ''ABCD'' ''player-u2'' demo_env demo11) ''ABCD'' = Some l' \<and>
         status (gameState l') = PLAYING) \<and>
   (\<exists>l'. get_lobby (handlePlayerReady ''ABCD'' ''player-u1'' demo_env demo11) ''ABCD'' = Some l' \<and>
         status (gameState l') = GAME_OVER)"
proof -
  have "map_option (\<lambda>l. (status (gameState l), length (players l),
           list_all isReady (markReady ''player-u2'' (players l)),
           list_all isReady (markReady ''player-u1'' (players l))))
          (get_lobby demo11 ''ABCD'') = Some (GAME_OVER, 2, True, False)"
    by code_simp
  then obtain l where l: "get_lobby demo11 ''ABCD'' = Some l" "status (gameState l) = GAME_OVER"
    "length (players l) = 2" "list_all isReady (markReady ''player-u2'' (players l))"
    "\<not> list_all isReady (markReady ''player-u1'' (players l))"
    by auto
  have "map_option (\<lambda>l. length (players l)) (get_lobby (handlePlayerLeave ''ABCD'' ''player-u2'' demo11) ''ABCD'')
          = Some 1"
    by code_simp
  then obtain k where k: "get_lobby (handlePlayerLeave ''ABCD'' ''player-u2'' demo11) ''ABCD'' = Some k"
    by auto
  note t = GAME_OVER_left_only_by_unanimous_ready[OF l(1,2)]
  have 1: "handleMovePaddle ''ABCD'' ''player-u1'' ''LEFT'' demo11 = demo11"
    using t[of "''player-u1''" "''LEFT''"] by blast
  have 2: "updateBallPosition ''ABCD'' demo_env demo11 = demo11"
    using t[of _ _ demo_env] by blast
  have 3: "\<exists>l'. get_lobby (handlePlayerReady ''ABCD'' ''player-u2'' demo_env demo11) ''ABCD'' = Some l' \<and>
         status (gameState l') = PLAYING"
    using t[of "''player-u2''" _ demo_env] l(3,4) by simp
  have 4: "\<exists>l'. get_lobby (handlePlayerReady ''ABCD'' ''player-u1'' demo_env demo11) ''ABCD'' = Some l' \<and>
         status (gameState l') = GAME_OVER"
    using t[of "''player-u1''" _ demo_env] l(3,5) by simp
  have 5: "\<exists>l'. get_lobby (handlePlayerLeave ''ABCD'' ''player-u2'' demo11) ''ABCD'' = Some l' \<and>
         status (gameState l') = GAME_OVER"
    using t[of "''player-u2''"] k by blast
  have 6: "\<exists>l'. get_lobby (snd (joinLobby ''ABCD'' ''Dave'' ''u4'' demo11)) ''ABCD'' = Some l' \<and>
         status (gameState l') = GAME_OVER"
    using t[of _ _ _ "''Dave''" "''u4''"] by blast
  show ?thesis using l 1 2 3 4 5 6 by blast
qed

text \<open>
  C2. The code at the input the claim names: \<open>createLobby\<close> puts the host in \<open>players\<close>
  and leaves \<open>scores\<close> empty, and the host still has no entry after two more players
  have joined (each with an entry of 0) and readiness has been exchanged. Only
  \<open>startGame\<close> writes the host's entry.
\<close>

theorem createLobby_host_without_score:
  "createLobby ''Alice'' [''ABCD''] ''u1'' init_server = Some (Inr (''ABCD'', ''player-u1''), demo1) \<and>
   map_option (\<lambda>l. (map pid (players l), scores (gameState l))) (get_lobby demo1 ''ABCD'')
     = Some ([''player-u1''], []) \<and>
   map_option (\<lambda>l. (map pid (players l), status (gameState l), scores (gameState l)))
       (get_lobby demo8 ''ABCD'')
     = Some ([''player-u1'', ''player-u2'', ''player-u3''], WAITING,
             [(''player-u2'', Num 0), (''player-u3'', Num 0)])"
  by code_simp

text \<open>
  C5. The code at a stale player id. Alice and Bob are ready, Carol has left (\<open>stale1\<close>,
  still WAITING: a departure does not evaluate readiness). A \<^verbatim>\<open>PLAYER_READY\<close> that then
  arrives on Carol's socket finds no player, and \<open>handlePlayerReady\<close> goes on: it starts
  the game, sets the interval and sends \<^verbatim>\<open>GAME_START\<close> to the two open sockets.
\<close>

theorem stale_ready_starts_game:
  "reachable stale1 \<and> (3, ''ABCD'', ''player-u3'') \<in> set (listeners stale1) \<and>
   map_option (\<lambda>l. (map pid (players l), map isReady (players l), status (gameState l)))
       (get_lobby stale1 ''ABCD'')
     = Some ([''player-u1'', ''player-u2''], [True, True], WAITING) \<and>
   intervals stale1 = [] \<and>
   map_option (\<lambda>l. (map pid (players l), status (gameState l), gameLoopInterval l))
       (get_lobby (onMessage ''ABCD'' ''player-u3'' PLAYER_READY demo_env stale1) ''ABCD'')
     = Some ([''player-u1'', ''player-u2''], PLAYING, Some 0) \<and>
   intervals (onMessage ''ABCD'' ''player-u3'' PLAYER_READY demo_env stale1) = [(0, ''ABCD'')] \<and>
   length (sent (onMessage ''ABCD'' ''player-u3'' PLAYER_READY demo_env stale1)) = length (sent stale1) + 2"
proof -
  have "map_option (\<lambda>l. (map pid (players l), map isReady (players l), status (gameState l)))
       (get_lobby stale1 ''ABCD'')
     = Some ([''player-u1'', ''player-u2''], [True, True], WAITING)"
    by code_simp
  moreover have "intervals stale1 = []" by code_simp
  moreover have "map_option (\<lambda>l. (map pid (players l), status (gameState l), gameLoopInterval l))
       (get_lobby (onMessage ''ABCD'' ''player-u3'' PLAYER_READY demo_env stale1) ''ABCD'')
     = Some ([''player-u1'', ''player-u2''], PLAYING, Some 0)"
    by code_simp
  moreover have "intervals (onMessage ''ABCD'' ''player-u3'' PLAYER_READY demo_env stale1) = [(0, ''ABCD'')]"
    by code_simp
  moreover have "length (sent (onMessage ''ABCD'' ''player-u3'' PLAYER_READY demo_env stale1)) = length (sent stale1) + 2"
    by code_simp
  ultimately show ?thesis using reachable_stale1 listener_stale1 by blast
qed

text \<open>
  C8. In a reachable state, when the ball ends the movement step of a tick with
  \<open>ball_y < 0\<close>, the first player in lobby order who guards BOTTOM gains exactly one
  point and no other score changes (no score changes when nobody guards BOTTOM); the
  ball is back at (300, 300) and each velocity component is 3 or -3, decided by its own
  random draw.
\<close>

theorem top_wall_scores_bottom:
  assumes "reachable s" "get_lobby s c = Some l" "status (gameState l) = PLAYING"
    "ball_y (moveBall (ball (gameState l))) < 0"
  shows "\<exists>l'. get_lobby (updateBallPosition c e s) c = Some l' \<and>
           ball_x (ball (gameState l')) = 300 \<and> ball_y (ball (gameState l')) = 300 \<and>
           velocityX (ball (gameState l')) = (if 1 / 2 < random1 e then 3 else - 3) \<and>
           velocityY (ball (gameState l')) = (if 1 / 2 < random2 e then 3 else - 3) \<and>
           (case find (\<lambda>p. position p = BOTTOM) (players l) of
              None \<Rightarrow> scores (gameState l') = scores (gameState l)
            | Some q \<Rightarrow>
                position q = BOTTOM \<and>
                (\<exists>n. map_of (scores (gameState l)) (pid q) = Some (Num n) \<and>
                     map_of (scores (gameState l')) (pid q) = Some (Num (n + 1))) \<and>
                (\<forall>i. i \<noteq> pid q \<longrightarrow>
                     map_of (scores (gameState l')) i = map_of (scores (gameState l)) i))"
proof -
  let ?gs = "gameState l"
  let ?b = "collide (moveBall (ball ?gs)) (paddles ?gs)"
  have y: "ball_y ?b < 0" using assms(4) by simp
  have w: "walls e (players l) ?b (scores ?gs) =
             (fst (award BOTTOM (players l) (scores ?gs)),
              snd (award BOTTOM (players l) (scores ?gs)), resetBall e ?b)"
    using y by (simp add: walls_def)
  from updateBallPosition_lobby[OF assms(2,3) w]
  obtain l' where l': "get_lobby (updateBallPosition c e s) c = Some l'"
    "ball (gameState l') = resetBall e ?b"
    "scores (gameState l') = snd (award BOTTOM (players l) (scores ?gs))"
    by blast
  have sc: "case find (\<lambda>p. position p = BOTTOM) (players l) of
              None \<Rightarrow> scores (gameState l') = scores (gameState l)
            | Some q \<Rightarrow>
                position q = BOTTOM \<and>
                (\<exists>n. map_of (scores (gameState l)) (pid q) = Some (Num n) \<and>
                     map_of (scores (gameState l')) (pid q) = Some (Num (n + 1))) \<and>
                (\<forall>i. i \<noteq> pid q \<longrightarrow>
                     map_of (scores (gameState l')) i = map_of (scores (gameState l)) i)"
  proof (cases "find (\<lambda>p. position p = BOTTOM) (players l)")
    case None
    then show ?thesis by (simp add: l'(3) award_def)
  next
    case (Some q)
    then have q: "q \<in> set (players l)" "position q = BOTTOM" by (auto dest: find_Some_set)
    from reachable_scored(1)[OF assms(1,2,3) q(1)]
    obtain n where n: "map_of (scores ?gs) (pid q) = Some (Num n)" by blast
    show ?thesis using Some q(2) n by (simp add: l'(3) award_def update_conv')
  qed
  show ?thesis
    using l'(1) sc by (simp add: l'(2) resetBall_def randomVelocity_def)
qed

theorem top_wall_scores_bottom_witness:
  "reachable (arena 250 0 (flying 100)) \<and>
   get_lobby (arena 250 0 (flying 100)) ''ABCD'' = Some (arena_lobby 250 0 (flying 100)) \<and>
   status (gameState (arena_lobby 250 0 (flying 100))) = PLAYING \<and>
   ball_y (moveBall (ball (gameState (arena_lobby 250 0 (flying 100))))) = - 3 \<and>
   find (\<lambda>p. position p = BOTTOM) (players (arena_lobby 250 0 (flying 100))) =
     Some \<lparr>pid = ''player-u3'', name = ''Carol'', isReady = True, position = BOTTOM\<rparr> \<and>
   map_of (scores (gameState (arena_lobby 250 0 (flying 100)))) ''player-u3'' = Some (Num 0) \<and>
   (\<exists>l'. get_lobby (updateBallPosition ''ABCD'' demo_env (arena 250 0 (flying 100))) ''ABCD'' = Some l' \<and>
         ball (gameState l') = \<lparr>ball_x = 300, ball_y = 300, velocityX = 3, velocityY = - 3\<rparr> \<and>
         map_of (scores (gameState l')) ''player-u3'' = Some (Num 1) \<and>
         map_of (scores (gameState l')) ''player-u1'' = Some (Num 0))"
proof -
  have r: "reachable (arena 250 0 (flying 100))" using reachable_arena[of 0 100] by simp
  have g: "get_lobby (arena 250 0 (flying 100)) ''ABCD'' = Some (arena_lobby 250 0 (flying 100))"
    by simp
  have p: "status (gameState (arena_lobby 250 0 (flying 100))) = PLAYING" by simp
  have y: "ball_y (moveBall (ball (gameState (arena_lobby 250 0 (flying 100))))) = - 3"
    by (simp add: moveBall_flying) (simp add: flying_def)
  then have y0: "ball_y (moveBall (ball (gameState (arena_lobby 250 0 (flying 100))))) < 0"
    by simp
  have f: "find (\<lambda>p. position p = BOTTOM) (players (arena_lobby 250 0 (flying 100))) =
     Some \<lparr>pid = ''player-u3'', name = ''Carol'', isReady = True, position = BOTTOM\<rparr>"
    by (simp add: arena_players_def)
  have s0: "map_of (scores (gameState (arena_lobby 250 0 (flying 100)))) ''player-u3'' = Some (Num 0)"
    "map_of (scores (gameState (arena_lobby 250 0 (flying 100)))) ''player-u1'' = Some (Num 0)"
    by (simp_all add: arena_scores_def)
  from top_wall_scores_bottom[OF r g p y0, of demo_env]
  obtain l' where l': "get_lobby (updateBallPosition ''ABCD'' demo_env (arena 250 0 (flying 100))) ''ABCD'' = Some l'"
    "ball_x (ball (gameState l')) = 300" "ball_y (ball (gameState l')) = 300"
    "velocityX (ball (gameState l')) = 3" "velocityY (ball (gameState l')) = - 3"
    "map_of (scores (gameState l')) ''player-u3'' = Some (Num 1)"
    "map_of (scores (gameState l')) ''player-u1'' = Some (Num 0)"
    unfolding f using s0 by (auto simp: demo_env_def)
  have "ball (gameState l') = \<lparr>ball_x = 300, ball_y = 300, velocityX = 3, velocityY = - 3\<rparr>"
    using l'(2-5) by (cases "ball (gameState l')") simp
  then show ?thesis using r g p y f s0 l' by blast
qed

text \<open>
  C6. Over any sequence of ticks no numeric score decreases. In a reachable state, when a
  tick takes some score to exactly 10, the status is GAME_OVER after that same tick; and
  once a tick has ended the game, no interval is set for the lobby and no later tick
  changes the ball. (The reset of the ball to the centre is part of the scoring itself:
  \<^verbatim>\<open>resetBall\<close> runs in the wall branch, before the check that ends the game.)
\<close>

theorem scores_never_decrease_and_ten_ends_game:
  assumes "reachable s" "get_lobby s c = Some l"
  shows "(\<forall>es. \<exists>l'. get_lobby (ticks c es s) c = Some l' \<and>
            (\<forall>i n. map_of (scores (gameState l)) i = Some (Num n) \<longrightarrow>
               (\<exists>n'. map_of (scores (gameState l')) i = Some (Num n') \<and> n \<le> n'))) \<and>
         (\<exists>l'. get_lobby (intervalCallback c e s) c = Some l' \<and>
            ((\<exists>i. map_of (scores (gameState l')) i = Some (Num 10) \<and>
                  map_of (scores (gameState l)) i \<noteq> Some (Num 10)) \<longrightarrow>
               status (gameState l') = GAME_OVER) \<and>
            (status (gameState l') = GAME_OVER \<longrightarrow>
               (\<forall>h. map_of (intervals (intervalCallback c e s)) h \<noteq> Some c) \<and>
               (\<forall>es. \<exists>l''. get_lobby (ticks c es (intervalCallback c e s)) c = Some l'' \<and>
                     ball (gameState l'') = ball (gameState l'))))"
proof -
  let ?s' = "intervalCallback c e s"
  have a: "\<forall>es. \<exists>l'. get_lobby (ticks c es s) c = Some l' \<and>
            (\<forall>i n. map_of (scores (gameState l)) i = Some (Num n) \<longrightarrow>
               (\<exists>n'. map_of (scores (gameState l')) i = Some (Num n') \<and> n \<le> n'))"
    using ticks_mono[OF assms(2)] by blast
  from tick_mono[OF assms(2), of e] obtain l' where l': "get_lobby ?s' c = Some l'" by blast
  have inv: "server_inv ?s'"
    using assms(1) by (intro server_inv_intervalCallback reachable_server_inv)
  have ten: "status (gameState l') = GAME_OVER"
    if "map_of (scores (gameState l')) i = Some (Num 10)"
       "map_of (scores (gameState l)) i \<noteq> Some (Num 10)" for i
  proof (cases "status (gameState l) = PLAYING")
    case False
    then have "l' = l" using l' assms(2) by (simp add: intervalCallback_not_playing)
    then show ?thesis using that by simp
  next
    case True
    let ?w = "walls e (players l) (collide (moveBall (ball (gameState l))) (paddles (gameState l)))
                  (scores (gameState l))"
    from intervalCallback_lobby[OF assms(2) True, of e] l'
    have sc: "scores (gameState l') = fst (snd ?w)"
      and st: "status (gameState l') =
        (if \<exists>w. fst ?w = Some w \<and> w \<noteq> [] \<and> score_ge (map_of (scores (gameState l')) w) 10
         then GAME_OVER else PLAYING)"
      by auto
    have "map_of (fst (snd ?w)) i \<noteq> map_of (scores (gameState l)) i" using that sc by auto
    from walls_changed[OF this] obtain q where q: "q \<in> set (players l)" "fst ?w = Some (pid q)"
      "i = pid q" by blast
    have "pid q \<noteq> []" using assms True q(1) by (rule reachable_scored(2))
    moreover have "score_ge (map_of (scores (gameState l')) (pid q)) 10"
      using that(1) q(3) by simp
    ultimately show ?thesis using st q(2) by auto
  qed
  have stop: "(\<forall>h. map_of (intervals ?s') h \<noteq> Some c) \<and>
               (\<forall>es. \<exists>l''. get_lobby (ticks c es ?s') c = Some l'' \<and>
                     ball (gameState l'') = ball (gameState l'))"
    if "status (gameState l') = GAME_OVER"
  proof -
    have np: "status (gameState l') \<noteq> PLAYING" using that by simp
    have "map_of (intervals ?s') h \<noteq> Some c" for h
    proof
      assume "map_of (intervals ?s') h = Some c"
      with inv obtain l0 where "get_lobby ?s' c = Some l0" "status (gameState l0) = PLAYING"
        by (rule server_inv_timerD)
      then show False using l' np by simp
    qed
    moreover have "\<exists>l''. get_lobby (ticks c es ?s') c = Some l'' \<and>
                     ball (gameState l'') = ball (gameState l')" for es
      using ticks_not_playing[OF l' np, of es] l' by simp
    ultimately show ?thesis by blast
  qed
  show ?thesis using a l' ten stop by blast
qed

theorem scores_never_decrease_and_ten_ends_game_witness:
  "reachable (arena 250 9 (flying 100)) \<and>
   get_lobby (arena 250 9 (flying 100)) ''ABCD'' = Some (arena_lobby 250 9 (flying 100)) \<and>
   map_of (scores (gameState (arena_lobby 250 9 (flying 100)))) ''player-u3'' = Some (Num 9) \<and>
   (\<exists>l'. get_lobby (intervalCallback ''ABCD'' demo_env (arena 250 9 (flying 100))) ''ABCD'' = Some l' \<and>
         map_of (scores (gameState l')) ''player-u3'' = Some (Num 10) \<and>
         status (gameState l') = GAME_OVER \<and>
         (\<forall>h. map_of (intervals (intervalCallback ''ABCD'' demo_env (arena 250 9 (flying 100)))) h
               \<noteq> Some ''ABCD''))"
proof -
  have r: "reachable (arena 250 9 (flying 100))" using reachable_arena[of 9 100] by simp
  have g: "get_lobby (arena 250 9 (flying 100)) ''ABCD'' = Some (arena_lobby 250 9 (flying 100))"
    by simp
  have s9: "map_of (scores (gameState (arena_lobby 250 9 (flying 100)))) ''player-u3'' = Some (Num 9)"
    by (simp add: arena_scores_def)
  from tick_win obtain l1 where
    l1: "get_lobby (intervalCallback ''ABCD'' demo_env (arena 250 9 (flying 100))) ''ABCD'' = Some l1"
    "scores (gameState l1) = arena_scores 10" by blast
  then have s10: "map_of (scores (gameState l1)) ''player-u3'' = Some (Num 10)"
    by (simp add: arena_scores_def)
  from scores_never_decrease_and_ten_ends_game[OF r g, of demo_env] l1(1)
  have "((\<exists>i. map_of (scores (gameState l1)) i = Some (Num 10) \<and>
             map_of (scores (gameState (arena_lobby 250 9 (flying 100)))) i \<noteq> Some (Num 10)) \<longrightarrow>
          status (gameState l1) = GAME_OVER) \<and>
        (status (gameState l1) = GAME_OVER \<longrightarrow>
          (\<forall>h. map_of (intervals (intervalCallback ''ABCD'' demo_env (arena 250 9 (flying 100)))) h
               \<noteq> Some ''ABCD''))"
    by auto
  moreover have "map_of (scores (gameState (arena_lobby 250 9 (flying 100)))) ''player-u3'' \<noteq> Some (Num 10)"
    using s9 by simp
  ultimately have "status (gameState l1) = GAME_OVER"
    "\<forall>h. map_of (intervals (intervalCallback ''ABCD'' demo_env (arena 250 9 (flying 100)))) h
               \<noteq> Some ''ABCD''"
    using s10 by blast+
  then show ?thesis using r g s9 l1(1) s10 by blast
qed

text \<open>
  C3, as stated, fails: a paddle that already touches the bound does not move, although
  the direction is one its side accepts. After 25 moves to the left Alice's top paddle
  is at \<open>x = 0\<close>; the next \<^verbatim>\<open>MOVE_PADDLE LEFT\<close> changes nothing.
\<close>

theorem paddle_at_edge_does_not_move:
  "reachable (arena 0 0 (flying 0)) \<and>
   get_lobby (arena 0 0 (flying 0)) ''ABCD'' = Some (arena_lobby 0 0 (flying 0)) \<and>
   status (gameState (arena_lobby 0 0 (flying 0))) = PLAYING \<and>
   hd (paddles (gameState (arena_lobby 0 0 (flying 0)))) =
     \<lparr>paddle_playerId = ''player-u1'', paddle_position = TOP,
      paddle_x = 0, paddle_y = 20, width = 100, height = 10\<rparr> \<and>
   handleMovePaddle ''ABCD'' ''player-u1'' ''LEFT'' (arena 0 0 (flying 0)) = arena 0 0 (flying 0)"
proof -
  have "updateFirst (\<lambda>p. paddle_playerId p = ''player-u1'') (movePaddle ''LEFT'') (arena_paddles 0) =
     arena_paddles 0"
    by (simp add: arena_paddles_def movePaddle_def)
  then have "handleMovePaddle ''ABCD'' ''player-u1'' ''LEFT'' (arena 0 0 (flying 0)) = arena 0 0 (flying 0)"
    by (simp add: handleMovePaddle_def find_arena_paddle arena_paddles_update)
  moreover have "hd (arena_paddles 0) =
     \<lparr>paddle_playerId = ''player-u1'', paddle_position = TOP,
      paddle_x = 0, paddle_y = 20, width = 100, height = 10\<rparr>"
    by (simp add: arena_paddles_def)
  ultimately show ?thesis using reachable_arena_edge by simp
qed

text \<open>
  C3, amended. In a reachable state a \<^verbatim>\<open>MOVE_PADDLE\<close> processed while PLAYING moves the
  player's paddle by exactly 10 along its movable axis, or not at all when the direction
  is not one of the two its side accepts or when the paddle already touches the bound in
  that direction (coordinate 0, or coordinate + extent = 600); the other coordinate and
  the size stay, and afterwards \<open>0 \<le> coordinate\<close> and \<open>coordinate + extent \<le> 600\<close>.
\<close>

theorem paddle_step_is_ten_or_clamped:
  assumes "reachable s" "get_lobby s c = Some l" "status (gameState l) = PLAYING"
    "find (\<lambda>p. paddle_playerId p = i) (paddles (gameState l)) = Some p"
  shows "\<exists>l'. get_lobby (handleMovePaddle c i d s) c = Some l' \<and>
           find (\<lambda>p. paddle_playerId p = i) (paddles (gameState l')) = Some (movePaddle d p) \<and>
           width (movePaddle d p) = width p \<and> height (movePaddle d p) = height p \<and>
           paddle_position (movePaddle d p) = paddle_position p \<and>
           (paddle_position p = TOP \<or> paddle_position p = BOTTOM \<longrightarrow>
              paddle_y (movePaddle d p) = paddle_y p \<and>
              paddle_x (movePaddle d p) =
                (if d = ''LEFT'' \<and> paddle_x p \<noteq> 0 then paddle_x p - 10
                 else if d = ''RIGHT'' \<and> paddle_x p + width p \<noteq> 600 then paddle_x p + 10
                 else paddle_x p) \<and>
              0 \<le> paddle_x (movePaddle d p) \<and>
              paddle_x (movePaddle d p) + width (movePaddle d p) \<le> 600) \<and>
           (paddle_position p = LEFT \<or> paddle_position p = RIGHT \<longrightarrow>
              paddle_x (movePaddle d p) = paddle_x p \<and>
              paddle_y (movePaddle d p) =
                (if d = ''UP'' \<and> paddle_y p \<noteq> 0 then paddle_y p - 10
                 else if d = ''DOWN'' \<and> paddle_y p + height p \<noteq> 600 then paddle_y p + 10
                 else paddle_y p) \<and>
              0 \<le> paddle_y (movePaddle d p) \<and>
              paddle_y (movePaddle d p) + height (movePaddle d p) \<le> 600)"
proof -
  from handleMovePaddle_lobby[OF assms(2,3,4), of d] obtain l' where
    l': "get_lobby (handleMovePaddle c i d s) c = Some l'"
    "find (\<lambda>p. paddle_playerId p = i) (paddles (gameState l')) = Some (movePaddle d p)"
    by blast
  have "p \<in> set (paddles (gameState l))" using assms(4) by (auto dest: find_Some_set)
  then have ok: "paddle_ok p" by (rule reachable_paddle_ok[OF assms(1,2)])
  have ok': "paddle_ok (movePaddle d p)" using ok by (rule paddle_ok_movePaddle)
  have same: "width (movePaddle d p) = width p" "height (movePaddle d p) = height p"
    "paddle_position (movePaddle d p) = paddle_position p"
    by (simp_all add: movePaddle_def)
  have h: "paddle_y (movePaddle d p) = paddle_y p \<and>
           paddle_x (movePaddle d p) =
                (if d = ''LEFT'' \<and> paddle_x p \<noteq> 0 then paddle_x p - 10
                 else if d = ''RIGHT'' \<and> paddle_x p + width p \<noteq> 600 then paddle_x p + 10
                 else paddle_x p) \<and>
           0 \<le> paddle_x (movePaddle d p) \<and>
           paddle_x (movePaddle d p) + width (movePaddle d p) \<le> 600"
    if t: "paddle_position p = TOP \<or> paddle_position p = BOTTOM"
  proof -
    have a: "width p = 100" "0 \<le> paddle_x p" "paddle_x p \<le> 500"
      using ok t by (auto simp: paddle_ok_def)
    have b: "0 \<le> paddle_x (movePaddle d p)" "paddle_x (movePaddle d p) \<le> 500"
      using ok' t same by (auto simp: paddle_ok_def)
    have "paddle_y (movePaddle d p) = paddle_y p" using t by (auto simp: movePaddle_def)
    moreover have "paddle_x (movePaddle d p) =
                (if d = ''LEFT'' \<and> paddle_x p \<noteq> 0 then paddle_x p - 10
                 else if d = ''RIGHT'' \<and> paddle_x p + width p \<noteq> 600 then paddle_x p + 10
                 else paddle_x p)"
      using t a by (auto simp: movePaddle_def)
    ultimately show ?thesis using a b same by simp
  qed
  have v: "paddle_x (movePaddle d p) = paddle_x p \<and>
           paddle_y (movePaddle d p) =
                (if d = ''UP'' \<and> paddle_y p \<noteq> 0 then paddle_y p - 10
                 else if d = ''DOWN'' \<and> paddle_y p + height p \<noteq> 600 then paddle_y p + 10
                 else paddle_y p) \<and>
           0 \<le> paddle_y (movePaddle d p) \<and>
           paddle_y (movePaddle d p) + height (movePaddle d p) \<le> 600"
    if t: "paddle_position p = LEFT \<or> paddle_position p = RIGHT"
  proof -
    have nt: "\<not> (paddle_position p = TOP \<or> paddle_position p = BOTTOM)" using t by auto
    have a: "height p = 100" "0 \<le> paddle_y p" "paddle_y p \<le> 500"
      using ok nt by (auto simp: paddle_ok_def)
    have b: "0 \<le> paddle_y (movePaddle d p)" "paddle_y (movePaddle d p) \<le> 500"
      using ok' nt same by (auto simp: paddle_ok_def)
    have "paddle_x (movePaddle d p) = paddle_x p" using nt by (auto simp: movePaddle_def)
    moreover have "paddle_y (movePaddle d p) =
                (if d = ''UP'' \<and> paddle_y p \<noteq> 0 then paddle_y p - 10
                 else if d = ''DOWN'' \<and> paddle_y p + height p \<noteq> 600 then paddle_y p + 10
                 else paddle_y p)"
      using nt a by (auto simp: movePaddle_def)
    ultimately show ?thesis using a b same by simp
  qed
  show ?thesis using l' same h v by blast
qed

theorem paddle_step_is_ten_or_clamped_witness:
  "reachable (arena 250 0 (flying 0)) \<and>
   get_lobby (arena 250 0 (flying 0)) ''ABCD'' = Some (arena_lobby 250 0 (flying 0)) \<and>
   status (gameState (arena_lobby 250 0 (flying 0))) = PLAYING \<and>
   find (\<lambda>p. paddle_playerId p = ''player-u1'') (paddles (gameState (arena_lobby 250 0 (flying 0)))) =
     Some \<lparr>paddle_playerId = ''player-u1'', paddle_position = TOP,
            paddle_x = 250, paddle_y = 20, width = 100, height = 10\<rparr> \<and>
   (\<exists>l'. get_lobby (handleMovePaddle ''ABCD'' ''player-u1'' ''LEFT'' (arena 250 0 (flying 0))) ''ABCD''
           = Some l' \<and>
         map_option (\<lambda>p. (paddle_x p, paddle_y p, width p, height p))
           (find (\<lambda>p. paddle_playerId p = ''player-u1'') (paddles (gameState l')))
           = Some (240, 20, 100, 10))"
proof -
  let ?p = "\<lparr>paddle_playerId = ''player-u1'', paddle_position = TOP,
            paddle_x = 250, paddle_y = 20, width = 100, height = 10\<rparr>"
  have g: "get_lobby (arena 250 0 (flying 0)) ''ABCD'' = Some (arena_lobby 250 0 (flying 0))"
    by simp
  have p: "status (gameState (arena_lobby 250 0 (flying 0))) = PLAYING" by simp
  have f: "find (\<lambda>p. paddle_playerId p = ''player-u1'') (paddles (gameState (arena_lobby 250 0 (flying 0))))
     = Some ?p"
    by (simp add: find_arena_paddle)
  from paddle_step_is_ten_or_clamped[OF reachable_arena_start g p f, of "''LEFT''"]
  obtain l' where
    l': "get_lobby (handleMovePaddle ''ABCD'' ''player-u1'' ''LEFT'' (arena 250 0 (flying 0))) ''ABCD''
           = Some l'"
    "find (\<lambda>p. paddle_playerId p = ''player-u1'') (paddles (gameState l')) = Some (movePaddle ''LEFT'' ?p)"
    "width (movePaddle ''LEFT'' ?p) = 100" "height (movePaddle ''LEFT'' ?p) = 10"
    "paddle_y (movePaddle ''LEFT'' ?p) = 20" "paddle_x (movePaddle ''LEFT'' ?p) = 240"
    by auto
  then show ?thesis using reachable_arena_start g p f by auto
qed




end
